theory Spec2Isabelle
  imports Main "HOL-Library.Word"
begin

unbundle bit_operations_syntax

section \<open>Data model of \<^verbatim>\<open>panel-simple.c\<close>\<close>

type_synonym u8 = "8 word"
type_synonym u32 = "32 word"
type_synonym u64 = "64 word"

text \<open>The two error numbers the interpreter uses, with their Linux values.\<close>

definition EINVAL :: int where
  "EINVAL = 22"

definition EPROTO :: int where
  "EPROTO = 71"

text \<open>
  Calls that leave the driver (bus transfers and sleeps).  The driver's effects on the outside
  world are recorded as a log of such requests; what a bus answers is a function of the log so
  far and of the request: the return code and the bytes it delivers to a receive buffer.
\<close>

datatype i2c_msg = I2cMsg (m_addr: nat) (m_rd: bool) (m_len: nat) (m_buf: "u8 list")

datatype request =
    SpiSync nat "u8 list" bool
  | I2cTransfer "i2c_msg list"
  | GenericWrite "u8 list"
  | DcsWriteBuffer "u8 list"
  | SetMaxReturn u8
  | GenericRead "u8 list" nat
  | DcsRead u8 nat
  | Msleep nat

type_synonym bus = "request list \<Rightarrow> request \<Rightarrow> int \<times> u8 list"

text \<open>The fields of \<^verbatim>\<open>struct drm_display_mode\<close> read by the field patcher.\<close>

record drm_display_mode =
  hdisplay :: int
  hsync_start :: int
  hsync_end :: int
  htotal :: int
  vdisplay :: int
  vsync_start :: int
  vsync_end :: int
  vtotal :: int

text \<open>
  The fields of \<^verbatim>\<open>struct panel_simple\<close> used by the command-list code.  \<open>spi\<close> and
  \<open>i2c\<close> say whether the handle is non-NULL, \<open>lanes\<close> is \<^verbatim>\<open>dsi->lanes\<close>,
  \<open>tx_buf\<close> and \<open>rx_buf\<close> are the two 63-byte arrays, and \<open>calls\<close> is the log of
  requests issued so far.
\<close>

record panel_simple =
  spi :: bool
  i2c :: bool
  spi_9bit :: bool
  spi_bits :: nat
  i2c_address :: nat
  lanes :: nat
  dt_mode :: drm_display_mode
  tx_buf :: "u8 list"
  rx_buf :: "u8 list"
  calls :: "request list"

text \<open>A bus call: log the request and return what the bus answers.\<close>

definition bus_call :: "bus \<Rightarrow> panel_simple \<Rightarrow> request \<Rightarrow> (int \<times> u8 list) \<times> panel_simple" where
  "bus_call b pn rq = (b (calls pn) rq, pn\<lparr>calls := calls pn @ [rq]\<rparr>)"

text \<open>The first \<open>n\<close> bytes of a receive buffer are overwritten by the delivered bytes.\<close>

definition deliver :: "u8 list \<Rightarrow> nat \<Rightarrow> u8 list \<Rightarrow> u8 list" where
  "deliver dst n src =
     map (\<lambda>j. if j < n \<and> j < length src then src ! j else dst ! j) [0..<length dst]"

section \<open>The serial transport: flush and 9-bit packer\<close>

text \<open>
  \<^verbatim>\<open>spi_send\<close>: nothing happens without a handle or with an empty accumulator; otherwise
  the first \<^verbatim>\<open>(spi_bits + 7) >> 3\<close> bytes of \<open>tx_buf\<close> are transferred and the
  accumulator is reset.
\<close>

definition spi_send :: "bus \<Rightarrow> panel_simple \<Rightarrow> bool \<Rightarrow> int \<times> panel_simple" where
  "spi_send b pn rx =
     (if \<not> spi pn \<or> spi_bits pn = 0 then (0, pn)
      else
        let tlen = (spi_bits pn + 7) div 8;
            ((ret, data), pn1) = bus_call b (pn\<lparr>spi_bits := 0\<rparr>) (SpiSync tlen (take tlen (tx_buf pn)) rx)
        in (ret, if rx then pn1\<lparr>rx_buf := deliver (rx_buf pn1) tlen data\<rparr> else pn1))"

text \<open>
  The \<^verbatim>\<open>while (bits > 0)\<close> loop of \<^verbatim>\<open>store_9bit\<close>.  \<open>k\<close> is the index \<^verbatim>\<open>buf\<close>
  points at, \<open>val\<close> the 32-bit shift register, \<open>p\<close> the source bytes not yet loaded
  (\<^verbatim>\<open>l\<close> is its length).
\<close>

function store_9bit_loop :: "u8 list \<Rightarrow> nat \<Rightarrow> u32 \<Rightarrow> int \<Rightarrow> int \<Rightarrow> u8 list \<Rightarrow> u8 list" where
  "store_9bit_loop buf k val bits v_bits p =
     (if bits > 0 then
        let buf1 = buf[k := ucast (drop_bit (nat (v_bits - 8)) val)];
            bits1 = bits - 8;
            v1 = v_bits - 8
        in if v1 < 8 then
             (case p of
                [] \<Rightarrow> store_9bit_loop buf1 (k + 1) (push_bit 9 val) bits1 (v1 + 9) []
              | x # xs \<Rightarrow>
                  store_9bit_loop buf1 (k + 1) (push_bit 9 val OR 0x100 OR ucast x) bits1 (v1 + 9) xs)
           else store_9bit_loop buf1 (k + 1) val bits1 v1 p
      else buf)"
  by pat_completeness auto
termination
  by (relation "measure (\<lambda>(buf, k, val, bits, v_bits, p). nat bits)") auto

declare store_9bit_loop.simps [simp del]

text \<open>
  The part of \<^verbatim>\<open>store_9bit\<close> after the capacity check, for the bit offset \<open>i\<close>: the
  bits already in the current byte are reloaded, the first source byte is loaded with marker 0,
  and the loop writes the bytes out.
\<close>

definition store_9bit_at :: "panel_simple \<Rightarrow> nat \<Rightarrow> u8 list \<Rightarrow> panel_simple" where
  "store_9bit_at pn i p =
     (let bits = 9 * int (length p);
          k = i div 8;
          v_bits = int (i mod 8);
          bits1 = (if v_bits \<noteq> 0 then bits + v_bits else bits);
          val0 = (if v_bits \<noteq> 0 then drop_bit (nat (8 - v_bits)) (ucast (tx_buf pn ! k)) else 0) :: u32;
          val1 = push_bit 9 val0;
          v1 = v_bits + 9;
          val2 = (case p of [] \<Rightarrow> val1 | x # xs \<Rightarrow> val1 OR ucast x)
      in pn\<lparr>spi_bits := i + 9 * length p,
            tx_buf := store_9bit_loop (tx_buf pn) k val2 bits1 v1 (tl p)\<rparr>)"

text \<open>
  \<^verbatim>\<open>store_9bit\<close>.  \<^verbatim>\<open>l\<close> is the length of \<open>p\<close>; every caller passes a count taken from a
  byte of the stream, so \<^verbatim>\<open>l * 9\<close> does not overflow.  The capacity is
  \<^verbatim>\<open>sizeof(tx_buf) * 8 = 504\<close>.
\<close>

definition store_9bit :: "bus \<Rightarrow> panel_simple \<Rightarrow> u8 list \<Rightarrow> int \<times> panel_simple" where
  "store_9bit b pn p =
     (let bits = 9 * length p; i = spi_bits pn in
      if i + bits > 504 then
        (let (ret, pn1) = spi_send b pn False in
         if bits > 504 then (- EINVAL, pn1)
         else (ret, store_9bit_at pn1 0 p))
      else (0, store_9bit_at pn i p))"

text \<open>
  The \<^verbatim>\<open>while (bits > 0)\<close> loop of \<^verbatim>\<open>store_high\<close>: the shift register is refilled
  with 24 one bits whenever fewer than 8 bits are left in it.
\<close>

function store_high_loop :: "u8 list \<Rightarrow> nat \<Rightarrow> u32 \<Rightarrow> int \<Rightarrow> int \<Rightarrow> u8 list" where
  "store_high_loop buf k val bits v_bits =
     (if bits > 0 then
        let val1 = (if v_bits < 8 then push_bit 24 val OR 0xffffff else val);
            v1 = (if v_bits < 8 then v_bits + 24 else v_bits)
        in store_high_loop (buf[k := ucast (drop_bit (nat (v1 - 8)) val1)]) (k + 1) val1
             (bits - 8) (v1 - 8)
      else buf)"
  by pat_completeness auto
termination
  by (relation "measure (\<lambda>(buf, k, val, bits, v_bits). nat bits)") auto

declare store_high_loop.simps [simp del]

text \<open>\<^verbatim>\<open>store_high\<close>: \<open>bits\<close> one bits are appended, or \<^verbatim>\<open>-EINVAL\<close> if they do not fit.\<close>

definition store_high :: "panel_simple \<Rightarrow> nat \<Rightarrow> int \<times> panel_simple" where
  "store_high pn bits =
     (let i = spi_bits pn in
      if i + bits > 504 then (- EINVAL, pn)
      else
        let k = i div 8;
            v_bits = int (i mod 8);
            bits1 = (if v_bits \<noteq> 0 then int bits + v_bits else int bits);
            val = (if v_bits \<noteq> 0 then drop_bit (nat (8 - v_bits)) (ucast (tx_buf pn ! k)) else 0) :: u32
        in (0, pn\<lparr>spi_bits := i + bits,
                   tx_buf := store_high_loop (tx_buf pn) k val bits1 v_bits\<rparr>))"

text \<open>
  The loop of \<^verbatim>\<open>extract_data\<close>; the result lists the bytes written to \<^verbatim>\<open>dst\<close>, in
  order.  \<open>k\<close> is the index \<^verbatim>\<open>buf\<close> points at.
\<close>

fun extract_loop :: "u8 list \<Rightarrow> nat \<Rightarrow> nat \<Rightarrow> u32 \<Rightarrow> nat \<Rightarrow> u8 list" where
  "extract_loop buf 0 k val v_bits = []"
| "extract_loop buf (Suc bytes) k val v_bits =
     (if v_bits < 8 then
        let val1 = push_bit 8 val OR ucast (buf ! k);
            v1 = v_bits + 8
        in ucast (drop_bit (v1 - 8) val1) # extract_loop buf bytes (k + 1) val1 (v1 - 8)
      else ucast (drop_bit (v_bits - 8) val) # extract_loop buf bytes k val (v_bits - 8))"

text \<open>
  \<^verbatim>\<open>extract_data\<close>: \<open>bytes\<close> plain bytes are read from \<open>buf\<close>, starting at bit
  \<open>start_bit\<close>; there is no marker bit on this path.
\<close>

definition extract_data :: "nat \<Rightarrow> u8 list \<Rightarrow> nat \<Rightarrow> u8 list" where
  "extract_data bytes buf start_bit =
     (let k = start_bit div 8; v_bits = start_bit mod 8 in
      if v_bits \<noteq> 0 then extract_loop buf bytes (k + 1) (ucast (buf ! k)) (8 - v_bits)
      else extract_loop buf bytes k 0 0)"

text \<open>
  Bit \<open>n\<close> of a buffer in transmission order: bytes in index order, the most significant bit
  of each byte first.
\<close>

definition tx_bit :: "u8 list \<Rightarrow> nat \<Rightarrow> bool" where
  "tx_bit buf n = bit (buf ! (n div 8)) (7 - n mod 8)"

section \<open>The two-wire transport\<close>

text \<open>\<^verbatim>\<open>memcpy(buf, tx, tx_len)\<close> followed by the swap of the first two bytes.\<close>

definition i2c_stage :: "u8 list \<Rightarrow> u8 list \<Rightarrow> u8 list" where
  "i2c_stage buf tx =
     (let buf1 = tx @ drop (length tx) buf in
      if length tx \<ge> 2 then buf1[0 := buf1 ! 1, 1 := buf1 ! 0] else buf1)"

text \<open>\<^verbatim>\<open>simple_i2c_write\<close>; \<^verbatim>\<open>tx_len\<close> is the length of \<open>tx\<close>.\<close>

definition simple_i2c_write :: "bus \<Rightarrow> panel_simple \<Rightarrow> u8 list \<Rightarrow> int \<times> panel_simple" where
  "simple_i2c_write b pn tx =
     (if length tx > 63 then (- EINVAL, pn)
      else
        let pn1 = pn\<lparr>tx_buf := i2c_stage (tx_buf pn) tx\<rparr>;
            msg = I2cMsg (i2c_address pn) False (length tx) (take (length tx) (tx_buf pn1));
            ((ret, d), pn2) = bus_call b pn1 (I2cTransfer [msg])
        in if ret < 0 then
             (let (u, pn3) = bus_call b pn2 (Msleep 10);
                  ((ret2, d2), pn4) = bus_call b pn3 (I2cTransfer [msg])
              in (if ret2 < 0 then ret2 else 0, pn4))
           else (0, pn2))"

text \<open>
  \<^verbatim>\<open>simple_i2c_read\<close>: one transfer of two messages; the second result component is the
  receive buffer \<^verbatim>\<open>rx\<close> afterwards.
\<close>

definition simple_i2c_read ::
  "bus \<Rightarrow> panel_simple \<Rightarrow> u8 list \<Rightarrow> u8 list \<Rightarrow> nat \<Rightarrow> int \<times> u8 list \<times> panel_simple" where
  "simple_i2c_read b pn tx rx rx_len =
     (if length tx > 63 then (- EINVAL, rx, pn)
      else if rx_len > 63 then (- EINVAL, rx, pn)
      else
        let pn1 = pn\<lparr>tx_buf := i2c_stage (tx_buf pn) tx\<rparr>;
            msgs = [I2cMsg (i2c_address pn) False (length tx) (take (length tx) (tx_buf pn1)),
                    I2cMsg (i2c_address pn) True rx_len []];
            ((ret, d), pn2) = bus_call b pn1 (I2cTransfer msgs)
        in (if ret < 0 then ret else 0, deliver rx rx_len d, pn2))"

section \<open>The command-list interpreter\<close>

text \<open>
  The opcode constants come from \<^verbatim>\<open>dt-bindings/display/simple_panel_mipi_cmds.h\<close>, which is
  not among the sources at hand: they are a parameter of the interpreter.
\<close>

record opcodes =
  S_IF_1_LANE :: nat
  S_IF_4_LANES :: nat
  S_DELAY :: nat
  S_DCS_LENGTH :: nat
  S_DCS_BUF :: nat
  S_MRPS :: nat
  S_DCS_READ1 :: nat
  S_DCS_READ8 :: nat
  S_CONST :: nat
  S_HSYNC :: nat
  S_HBP :: nat
  S_HACTIVE :: nat
  S_HFP :: nat
  S_VSYNC :: nat
  S_VBP :: nat
  S_VACTIVE :: nat
  S_VFP :: nat

definition TYPE_MIPI :: int where
  "TYPE_MIPI = 0"

definition TYPE_I2C :: int where
  "TYPE_I2C = 1"

definition TYPE_SPI :: int where
  "TYPE_SPI = 2"

text \<open>
  The classification of the first byte of an instruction, in the order of the tests of
  \<^verbatim>\<open>send_cmd_list\<close>: the lane test reads the whole byte, the others the byte without its
  top bit (the "generic" flag).
\<close>

datatype kind =
    IfLanes nat
  | Write nat
  | WriteLength
  | WriteBuf
  | Mrps
  | Read nat
  | Delay
  | Patch nat
  | Unknown

definition decode :: "opcodes \<Rightarrow> u8 \<Rightarrow> kind" where
  "decode oc raw =
     (if unat raw \<ge> S_IF_1_LANE oc \<and> unat raw \<le> S_IF_4_LANES oc
      then IfLanes (1 + unat raw - S_IF_1_LANE oc)
      else
        let len = unat (raw AND 0x7f) in
        if len < S_DELAY oc \<or> len = S_DCS_LENGTH oc \<or> len = S_DCS_BUF oc then
          (if len = S_DCS_LENGTH oc then WriteLength
           else if len = S_DCS_BUF oc then WriteBuf
           else Write len)
        else if len = S_MRPS oc then Mrps
        else if len \<ge> S_DCS_READ1 oc \<and> len \<le> S_DCS_READ8 oc then Read (len - S_DCS_READ1 oc + 1)
        else if len = S_DELAY oc then Delay
        else if len \<ge> S_CONST oc \<and> len \<le> S_VFP oc then Patch len
        else Unknown)"

definition generic_of :: "u8 \<Rightarrow> bool" where
  "generic_of raw = (raw AND 0x80 \<noteq> 0)"

text \<open>
  The local state of the loop of \<^verbatim>\<open>send_cmd_list\<close>: \<open>cmd\<close> is the offset of the pointer
  \<^verbatim>\<open>cmd\<close> into the stream, \<open>length_c\<close> the counter \<^verbatim>\<open>length\<close>, \<open>cmd_buf\<close> the 32-byte
  staging array.
\<close>

record interp =
  cmd :: nat
  length_c :: nat
  skip :: bool
  match_c :: int
  cmd_buf :: "u8 list"
  panel :: panel_simple

text \<open>
  \<open>rd cs k n\<close> are the bytes \<^verbatim>\<open>cmd[0]\<close> .. \<^verbatim>\<open>cmd[n - 1]\<close> when \<^verbatim>\<open>cmd\<close> is at offset
  \<open>k\<close>.  The C code reads some of them before it checks the remaining length; a byte past the
  end of the stream is whatever follows it in memory, here an unspecified value.
\<close>

definition rd :: "u8 list \<Rightarrow> nat \<Rightarrow> nat \<Rightarrow> u8 list" where
  "rd cs k n = map (\<lambda>j. cs ! (k + j)) [0..<n]"

text \<open>The little-endian number \<^verbatim>\<open>readval\<close> / \<^verbatim>\<open>matchval\<close> built from up to 8 bytes.\<close>

fun le_val :: "u8 list \<Rightarrow> u64" where
  "le_val [] = 0"
| "le_val (x # xs) = ucast x OR push_bit 8 (le_val xs)"

subsection \<open>Field patch\<close>

function patch_loop :: "u8 list \<Rightarrow> nat \<Rightarrow> nat \<Rightarrow> u32 \<Rightarrow> u8 list" where
  "patch_loop cb dest_start dest_len val =
     (if dest_len \<noteq> 0 \<and> dest_start < 256 then
        let l = dest_start mod 8;
            mask = (if dest_len < 8 then push_bit dest_len 1 - 1 else 0xff) :: u32;
            k = dest_start div 8;
            b1 = cb ! k AND ucast (NOT (push_bit l mask));
            b2 = b1 OR ucast (push_bit l val);
            l2 = 8 - l
        in patch_loop (cb[k := b2]) (dest_start + l2)
             (if dest_len \<ge> l2 then dest_len - l2 else 0) (drop_bit l2 val)
      else cb)"
  by pat_completeness auto
termination
  by (relation "measure (\<lambda>(cb, dest_start, dest_len, val). 256 - dest_start)") auto

declare patch_loop.simps [simp del]

text \<open>
  The value selected by \<open>scmd\<close> and the number of operand bytes.  The timing fields are C
  \<^verbatim>\<open>int\<close>s, the value is \<^verbatim>\<open>unsigned\<close>; a selector in the range that is none of the
  eight names gives 0.  \<^verbatim>\<open>val >>= src_start\<close> with a count of 32 or more is taken to
  give 0.
\<close>

definition patch_value :: "opcodes \<Rightarrow> drm_display_mode \<Rightarrow> nat \<Rightarrow> u8 list \<Rightarrow> nat \<Rightarrow> u32 \<times> nat" where
  "patch_value oc dm scmd cs k =
     (if scmd = S_CONST oc then
        (ucast (cs ! (k + 2)) OR push_bit 8 (ucast (cs ! (k + 3))) OR push_bit 16 (ucast (cs ! (k + 4)))
           OR push_bit 24 (ucast (cs ! (k + 5))), 6)
      else
        let src_start = unat (cs ! (k + 2));
            val =
              (if scmd = S_HSYNC oc then word_of_int (hsync_end dm - hsync_start dm)
               else if scmd = S_HBP oc then word_of_int (htotal dm - hsync_end dm)
               else if scmd = S_HACTIVE oc then word_of_int (hdisplay dm)
               else if scmd = S_HFP oc then word_of_int (hsync_start dm - hdisplay dm)
               else if scmd = S_VSYNC oc then word_of_int (vsync_end dm - vsync_start dm)
               else if scmd = S_VBP oc then word_of_int (vtotal dm - vsync_end dm)
               else if scmd = S_VACTIVE oc then word_of_int (vdisplay dm)
               else if scmd = S_VFP oc then word_of_int (vsync_start dm - vdisplay dm)
               else 0) :: u32
        in (drop_bit src_start val, 3))"

text \<open>
  The whole patch instruction with \<^verbatim>\<open>cmd\<close> at offset \<open>k\<close>: \<^verbatim>\<open>cmd[0]\<close> is the
  destination bit offset, \<^verbatim>\<open>cmd[1]\<close> the bit count.  The result is the new \<^verbatim>\<open>cmd_buf\<close>
  and the operand length \<^verbatim>\<open>len\<close>.
\<close>

definition field_patch ::
  "opcodes \<Rightarrow> drm_display_mode \<Rightarrow> nat \<Rightarrow> u8 list \<Rightarrow> nat \<Rightarrow> u8 list \<Rightarrow> u8 list \<times> nat" where
  "field_patch oc dm scmd cs k cb =
     (let dest_start = unat (cs ! k);
          dest_len = unat (cs ! (k + 1));
          (val, len) = patch_value oc dm scmd cs k
      in (patch_loop cb dest_start dest_len val, len))"

subsection \<open>Dispatch of writes and reads\<close>

text \<open>
  The transport call of a write instruction with payload \<open>p\<close> (\<^verbatim>\<open>l\<close> is its length).  The
  diagnostic messages of the driver have no effect on its state and are left out.
\<close>

definition write_dispatch :: "bus \<Rightarrow> int \<Rightarrow> bool \<Rightarrow> panel_simple \<Rightarrow> u8 list \<Rightarrow> int \<times> panel_simple" where
  "write_dispatch b type generic pn p =
     (if type = TYPE_I2C then simple_i2c_write b pn p
      else if type = TYPE_SPI then
        (if spi_9bit pn then store_9bit b pn p
         else if length p < 63 then
           spi_send b (pn\<lparr>tx_buf := p @ drop (length p) (tx_buf pn), spi_bits := length p * 8\<rparr>) False
         else (- EINVAL, pn))
      else if generic then (let ((ret, d), pn1) = bus_call b pn (GenericWrite p) in (ret, pn1))
      else (let ((ret, d), pn1) = bus_call b pn (DcsWriteBuffer p) in (ret, pn1)))"

text \<open>
  The command-interface read: one attempt, a second one when the first returns
  \<^verbatim>\<open>-EPROTO\<close>.  After a generic read \<^verbatim>\<open>ret\<close> is set to 0.  \<open>c\<close> holds \<^verbatim>\<open>cmd[0]\<close>
  and \<^verbatim>\<open>cmd[1]\<close>, \<open>data\<close> is the array \<^verbatim>\<open>data\<close>.
\<close>

definition dsi_read ::
  "bus \<Rightarrow> bool \<Rightarrow> panel_simple \<Rightarrow> u8 list \<Rightarrow> u8 list \<Rightarrow> nat \<Rightarrow> int \<times> u8 list \<times> panel_simple" where
  "dsi_read b generic pn c data len =
     (let rq = (if generic then GenericRead (take 2 c) len else DcsRead (c ! 0) len);
          ((ret, d), pn1) = bus_call b pn rq;
          data1 = deliver data len d
      in if ret = - EPROTO then
           (let ((ret2, d2), pn2) = bus_call b pn1 rq
            in (if generic then 0 else ret2, deliver data1 len d2, pn2))
         else (if generic then 0 else ret, data1, pn1))"

text \<open>The transport call of a read instruction; the result carries \<^verbatim>\<open>ret\<close> and \<^verbatim>\<open>data\<close>.\<close>

definition read_dispatch ::
  "bus \<Rightarrow> int \<Rightarrow> bool \<Rightarrow> panel_simple \<Rightarrow> u8 list \<Rightarrow> nat \<Rightarrow> int \<times> u8 list \<times> panel_simple" where
  "read_dispatch b type generic pn c len =
     (let data = replicate 8 0;
          match_index = (if generic then 2 else 1)
      in if type = TYPE_I2C then simple_i2c_read b pn (take match_index c) data len
         else if type = TYPE_SPI then
           (let pn1 = (if spi_9bit pn
                       then snd (store_9bit b (snd (spi_send b pn False)) (take match_index c))
                       else pn\<lparr>tx_buf := take match_index c @ drop match_index (tx_buf pn),
                               spi_bits := match_index * 8\<rparr>);
                l = spi_bits pn1;
                pn2 = snd (store_high pn1 (len * 8));
                (ret, pn3) = spi_send b pn2 True
            in (ret, extract_data len (rx_buf pn3) l @ drop len data, pn3))
         else dsi_read b generic pn c data len)"

subsection \<open>One iteration of the loop\<close>

datatype flow = Continue interp | Break interp | Return int interp

text \<open>The end of the loop body, from \<^verbatim>\<open>if (ret < 0)\<close> on.\<close>

definition loop_tail :: "interp \<Rightarrow> int \<Rightarrow> nat \<Rightarrow> flow" where
  "loop_tail st ret len =
     (if ret < 0 then Return ret st
      else if length_c st < len then Break st
      else
        let st1 = st\<lparr>cmd := cmd st + len, length_c := length_c st - len\<rparr>
        in if length_c st1 = 0 then Break st1 else Continue (st1\<lparr>skip := False\<rparr>))"

text \<open>A write instruction once payload and length are known.\<close>

definition write_insn :: "bus \<Rightarrow> int \<Rightarrow> bool \<Rightarrow> interp \<Rightarrow> u8 list \<Rightarrow> nat \<Rightarrow> flow" where
  "write_insn b type generic st p len =
     (if length_c st < len then Break st
      else if \<not> skip st then
        (let (ret, pn) = write_dispatch b type generic (panel st) p
         in loop_tail (st\<lparr>panel := pn\<rparr>) ret len)
      else loop_tail st 0 len)"

text \<open>
  A read instruction of \<open>len\<close> bytes: \<^verbatim>\<open>data\<close> is fetched and compared with the bytes
  of the stream behind the \<^verbatim>\<open>match_index\<close> address bytes, unless the skip flag is set.
\<close>

definition read_insn :: "bus \<Rightarrow> int \<Rightarrow> bool \<Rightarrow> u8 list \<Rightarrow> interp \<Rightarrow> nat \<Rightarrow> flow" where
  "read_insn b type generic cs st len =
     (let match_index = (if generic then 2 else 1) in
      if \<not> skip st then
        (let (ret, data, pn) = read_dispatch b type generic (panel st) (rd cs (cmd st) 2) len;
             readval = le_val (rd data 0 len);
             matchval = le_val (rd cs (cmd st + match_index) len);
             st1 = st\<lparr>panel := pn\<rparr>;
             st2 = (if readval \<noteq> matchval then st1\<lparr>match_c := - EINVAL\<rparr> else st1)
         in loop_tail st2 ret (len + match_index))
      else loop_tail st 0 (len + match_index))"

text \<open>
  A delay instruction: on the serial transport the accumulated bits are sent first; the
  operand is consumed here, so the common end of the loop body runs with length 0.
\<close>

definition delay_insn :: "bus \<Rightarrow> int \<Rightarrow> u8 list \<Rightarrow> interp \<Rightarrow> flow" where
  "delay_insn b type cs st =
     (let st1 =
        (if \<not> skip st then
           (let pn1 = (if type = TYPE_SPI then snd (spi_send b (panel st) False) else panel st);
                (u, pn2) = bus_call b pn1 (Msleep (unat (cs ! cmd st)))
            in st\<lparr>panel := pn2\<rparr>)
         else st)
      in if length_c st1 \<le> 1 then Break st1
         else loop_tail (st1\<lparr>cmd := cmd st1 + 1, length_c := length_c st1 - 1\<rparr>) 0 0)"

text \<open>
  One pass through the body of \<^verbatim>\<open>while (1)\<close>.  \<open>Continue\<close> is the next iteration (also
  \<^verbatim>\<open>continue\<close>), \<open>Break\<close> is \<^verbatim>\<open>break\<close>, \<open>Return\<close> is \<^verbatim>\<open>return ret\<close>.
\<close>

definition cmd_step :: "opcodes \<Rightarrow> bus \<Rightarrow> int \<Rightarrow> u8 list \<Rightarrow> interp \<Rightarrow> flow" where
  "cmd_step oc b type cs st0 =
     (let raw = cs ! cmd st0;
          generic = generic_of raw;
          st = st0\<lparr>cmd := cmd st0 + 1, length_c := length_c st0 - 1\<rparr>
      in if length_c st = 0 then Break st
         else
           (case decode oc raw of
              IfLanes lane_match \<Rightarrow>
                Continue (if lane_match \<noteq> lanes (panel st) then st\<lparr>skip := True\<rparr> else st)
            | Write len \<Rightarrow> write_insn b type generic st (rd cs (cmd st) len) len
            | WriteLength \<Rightarrow>
                (let len = unat (cs ! cmd st);
                     st1 = st\<lparr>cmd := cmd st + 1, length_c := length_c st - 1\<rparr>
                 in write_insn b type generic st1 (rd cs (cmd st1) len) len)
            | WriteBuf \<Rightarrow>
                (let l = min (unat (cs ! cmd st)) 32;
                     st1 = st\<lparr>cmd := cmd st + 1, length_c := length_c st - 1\<rparr>
                 in write_insn b type generic st1 (take l (cmd_buf st1)) 0)
            | Mrps \<Rightarrow>
                (if type = TYPE_MIPI then
                   (let ((ret, d), pn) = bus_call b (panel st) (SetMaxReturn (cs ! cmd st))
                    in loop_tail (st\<lparr>panel := pn\<rparr>) ret 1)
                 else loop_tail st 0 1)
            | Read len \<Rightarrow> read_insn b type generic cs st len
            | Delay \<Rightarrow> delay_insn b type cs st
            | Patch scmd \<Rightarrow>
                (let (cb, len) = field_patch oc (dt_mode (panel st)) scmd cs (cmd st) (cmd_buf st)
                 in loop_tail (st\<lparr>cmd_buf := cb\<rparr>) 0 len)
            | Unknown \<Rightarrow> Break (st\<lparr>match_c := - EINVAL\<rparr>)))"

text \<open>After the loop: the final flush on the serial transport.\<close>

definition send_end :: "bus \<Rightarrow> int \<Rightarrow> interp \<Rightarrow> int \<times> interp" where
  "send_end b type st =
     (if match_c st = 0 \<and> type = TYPE_SPI then
        (let (r, pn) = spi_send b (panel st) False in (r, st\<lparr>match_c := r, panel := pn\<rparr>))
      else (match_c st, st))"

subsection \<open>The loop and \<^verbatim>\<open>send_cmd_list\<close>\<close>

text \<open>
  The loop is entered with a non-zero \<^verbatim>\<open>length\<close> only, and every iteration that goes on
  leaves it smaller and non-zero, so the unsigned counter never wraps.
\<close>

function send_loop :: "opcodes \<Rightarrow> bus \<Rightarrow> int \<Rightarrow> u8 list \<Rightarrow> interp \<Rightarrow> int \<times> interp" where
  "send_loop oc b type cs st =
     (case cmd_step oc b type cs st of
        Continue st1 \<Rightarrow> send_loop oc b type cs st1
      | Break st1 \<Rightarrow> send_end b type st1
      | Return ret st1 \<Rightarrow> (ret, st1))"
  by pat_completeness auto
termination
proof (relation "measure (\<lambda>(oc, b, type, cs, st). length_c st)")
  show "wf (measure (\<lambda>(oc, b, type, cs, st). length_c st))"
    by simp
next
  fix oc :: opcodes and b :: bus and type :: int and cs :: "u8 list" and st st1 :: interp
  assume step: "cmd_step oc b type cs st = Continue st1"
  have tail: "\<And>s r n s'. loop_tail s r n = Continue s' \<Longrightarrow> length_c s' \<le> length_c s"
    by (auto simp: loop_tail_def Let_def split: if_splits)
  have wr: "\<And>b type g s p n s'. write_insn b type g s p n = Continue s' \<Longrightarrow> length_c s' \<le> length_c s"
    by (auto simp: write_insn_def Let_def split: if_splits prod.splits dest!: tail)
  have re: "\<And>b type g cs s n s'. read_insn b type g cs s n = Continue s' \<Longrightarrow> length_c s' \<le> length_c s"
    by (auto simp: read_insn_def Let_def split: if_splits prod.splits dest!: tail)
  have de: "\<And>b type cs s s'. delay_insn b type cs s = Continue s' \<Longrightarrow> length_c s' \<le> length_c s"
    by (auto simp: delay_insn_def Let_def split: if_splits prod.splits dest!: tail)
  have "length_c st1 < length_c st"
    using step
    by (auto simp: cmd_step_def Let_def split: if_splits kind.splits prod.splits
             dest!: tail wr re de)
  then show "((oc, b, type, cs, st1), (oc, b, type, cs, st)) \<in> measure (\<lambda>(oc, b, type, cs, st). length_c st)"
    by simp
qed

declare send_loop.simps [simp del]

text \<open>
  \<^verbatim>\<open>send_cmd_list\<close> for the stream \<open>cs\<close> (\<^verbatim>\<open>mc->length\<close> is its length; a NULL
  \<^verbatim>\<open>mc->cmds\<close> goes with length 0).  \<open>cb\<close> is the content of the uninitialised local array
  \<^verbatim>\<open>cmd_buf\<close> at entry.  The low-power flag set in \<^verbatim>\<open>dsi->mode_flags\<close> is not read by
  any of the code modelled here and is left out.
\<close>

definition send_cmd_list ::
  "opcodes \<Rightarrow> bus \<Rightarrow> panel_simple \<Rightarrow> u8 list \<Rightarrow> int \<Rightarrow> u8 list \<Rightarrow> int \<times> interp" where
  "send_cmd_list oc b pn cs type cb =
     (if cs = [] then
        (0, \<lparr>cmd = 0, length_c = 0, skip = False, match_c = 0, cmd_buf = cb, panel = pn\<rparr>)
      else
        send_loop oc b type cs
          \<lparr>cmd = 0, length_c = length cs, skip = False, match_c = 0, cmd_buf = cb,
           panel = pn\<lparr>spi_bits := 0\<rparr>\<rparr>)"

section \<open>Concrete instances\<close>

text \<open>
  An opcode table for concrete runs: plain writes below \<open>0x60\<close>, the other codes above, the
  lane gates at \<open>0x78\<close> .. \<open>0x7b\<close>; \<open>0x74\<close> lies in the patch range without being one of
  the nine selectors, and \<open>0x7f\<close> is no instruction at all.
\<close>

definition example_codes :: opcodes where
  "example_codes =
     \<lparr>S_IF_1_LANE = 0x78, S_IF_4_LANES = 0x7b, S_DELAY = 0x60, S_DCS_LENGTH = 0x61,
      S_DCS_BUF = 0x62, S_MRPS = 0x63, S_DCS_READ1 = 0x64, S_DCS_READ8 = 0x6b,
      S_CONST = 0x6c, S_HSYNC = 0x6d, S_HBP = 0x6e, S_HACTIVE = 0x6f, S_HFP = 0x70,
      S_VSYNC = 0x71, S_VBP = 0x72, S_VACTIVE = 0x73, S_VFP = 0x75\<rparr>"

definition example_mode :: drm_display_mode where
  "example_mode =
     \<lparr>hdisplay = 720, hsync_start = 750, hsync_end = 760, htotal = 800,
      vdisplay = 1280, vsync_start = 1290, vsync_end = 1294, vtotal = 1310\<rparr>"

definition example_panel :: panel_simple where
  "example_panel =
     \<lparr>spi = True, i2c = True, spi_9bit = True, spi_bits = 0, i2c_address = 0x2c, lanes = 4,
      dt_mode = example_mode, tx_buf = replicate 63 0, rx_buf = replicate 63 0, calls = []\<rparr>"

text \<open>Buses: one that always succeeds and delivers the bytes \<open>d\<close>, one whose very first
  call fails, one that answers every read with \<^verbatim>\<open>-EPROTO\<close>, and one that delivers
  \<open>d\<close> but fails every write and every set-max-return-size of the command interface with
  -5 (\<^verbatim>\<open>-EIO\<close>).\<close>

definition bus_data :: "u8 list \<Rightarrow> bus" where
  "bus_data d h rq = (0, d)"

definition bus_fail_first :: bus where
  "bus_fail_first h rq = (if h = [] then (- 5, []) else (0, []))"

definition bus_read_eproto :: bus where
  "bus_read_eproto h rq =
     (case rq of GenericRead c n \<Rightarrow> (- EPROTO, []) | DcsRead c n \<Rightarrow> (- EPROTO, []) | _ \<Rightarrow> (0, []))"


section \<open>Auxiliary notions for the proofs\<close>



text \<open>
  Bit \<open>n\<close> of a buffer when bit 0 is the least significant bit of byte 0: the numbering
  the field patch uses for its destination offset.
\<close>

definition lsb_bit :: "u8 list \<Rightarrow> nat \<Rightarrow> bool" where
  "lsb_bit buf n = bit (buf ! (n div 8)) (n mod 8)"

text \<open>
  The bits that follow in the packer's loop: every remaining source byte as a one bit and
  its eight bits, most significant first, and zeros after the last byte.
\<close>

fun frames :: "u8 list \<Rightarrow> nat \<Rightarrow> bool" where
  "frames [] n = False"
| "frames (x # xs) n = (if n = 0 then True else if n < 9 then bit x (8 - n) else frames xs (n - 9))"

text \<open>The bits still to be written: the low \<open>v\<close> bits of the shift register, then the frames.\<close>

definition pending :: "u32 \<Rightarrow> nat \<Rightarrow> u8 list \<Rightarrow> nat \<Rightarrow> bool" where
  "pending val v p n = (if n < v then bit val (v - 1 - n) else frames p (n - v))"

text \<open>The number of iterations of a loop that counts \<open>bits\<close> down by 8 while positive.\<close>

definition nbytes :: "int \<Rightarrow> nat" where
  "nbytes bits = nat ((bits + 7) div 8)"

text \<open>Bit \<open>m\<close> of the 9-bit groups one call of the packer produces for \<open>p\<close>.\<close>

definition packed_bit :: "u8 list \<Rightarrow> nat \<Rightarrow> bool" where
  "packed_bit p m = (if m mod 9 = 0 then m div 9 \<noteq> 0 else bit (p ! (m div 9)) (8 - m mod 9))"

text \<open>The shift register of \<^verbatim>\<open>store_9bit\<close> when its loop starts.\<close>

definition first_val :: "u8 list \<Rightarrow> nat \<Rightarrow> u8 list \<Rightarrow> u32" where
  "first_val buf i p =
     (let val0 = (if i mod 8 \<noteq> 0 then drop_bit (8 - i mod 8) (ucast (buf ! (i div 8))) else 0) :: u32
      in case p of [] \<Rightarrow> push_bit 9 val0 | x # xs \<Rightarrow> push_bit 9 val0 OR ucast x)"

section \<open>Bit-level behaviour of the packer\<close>

subsection \<open>Word facts\<close>

lemma bit_256_int: "bit (256 :: int) n \<longleftrightarrow> n = 8"
proof -
  have "(256 :: int) = 2 ^ 8" by simp
  then show ?thesis by (simp only: bit_exp_iff) auto
qed

lemma bit_0x100: "bit (0x100 :: u32) n \<longleftrightarrow> n = 8"
  by (auto simp: bit_256_int)

lemma bit_u8_high: "8 \<le> m \<Longrightarrow> \<not> bit (x :: u8) m"
  by (auto dest: bit_imp_le_length)

lemma bit_ucast_u8_u32: "bit (ucast (w :: u8) :: u32) n = bit w n"
  by (auto simp: bit_ucast_iff dest: bit_imp_le_length)

lemma bit_load:
  "m \<le> 16 \<Longrightarrow> bit (push_bit 9 (val :: u32) OR 0x100 OR ucast (x :: u8)) m
     = (if m < 8 then bit x m else if m = 8 then True else bit val (m - 9))"
  by (simp add: bit_or_iff bit_push_bit_iff bit_256_int bit_ucast_iff bit_u8_high)

lemma bit_load0:
  "m \<le> 16 \<Longrightarrow> bit (push_bit 9 (val :: u32) OR ucast (x :: u8)) m
     = (if m < 8 then bit x m else if m = 8 then False else bit val (m - 9))"
  by (simp add: bit_or_iff bit_push_bit_iff bit_ucast_iff bit_u8_high)

lemma bit_shift9:
  "m \<le> 16 \<Longrightarrow> bit (push_bit 9 (val :: u32)) m = (if m < 9 then False else bit val (m - 9))"
  by (simp add: bit_push_bit_iff)

lemma pending_keep: "8 \<le> v \<Longrightarrow> pending val (v - 8) p n = pending val v p (n + 8)"
  by (auto simp: pending_def)

lemma pending_load_nil:
  "8 \<le> v \<Longrightarrow> v \<le> 16 \<Longrightarrow> pending (push_bit 9 val) (v + 1) [] n = pending val v [] (n + 8)"
  by (auto simp: pending_def bit_shift9 add.commute)

lemma pending_load_cons:
  "8 \<le> v \<Longrightarrow> v \<le> 16 \<Longrightarrow>
   pending (push_bit 9 val OR 0x100 OR ucast x) (v + 1) xs n = pending val v (x # xs) (n + 8)"
  by (auto simp: pending_def bit_load add.commute)

lemma pending_head:
  "8 \<le> v \<Longrightarrow> v \<le> 16 \<Longrightarrow> b < 8 \<Longrightarrow>
   bit (ucast (drop_bit (v - 8) (val :: u32)) :: u8) b = pending val v p (7 - b)"
  by (auto simp: pending_def bit_ucast_iff bit_drop_bit_eq add.commute)

lemma nbytes_step: "0 < bits \<Longrightarrow> nbytes bits = Suc (nbytes (bits - 8))"
  by (simp add: nbytes_def)

lemma nbytes_done: "\<not> 0 < bits \<Longrightarrow> nbytes bits = 0"
  by (simp add: nbytes_def)

lemma store_9bit_loop_length: "length (store_9bit_loop buf k val bits v p) = length buf"
proof (induction buf k val bits v p rule: store_9bit_loop.induct)
  case (1 buf k val bits v_bits p)
  show ?case
    using "1.IH"
    by (subst store_9bit_loop.simps) (simp add: Let_def split: list.splits)
qed

lemma store_9bit_loop_outside:
  "j < k \<or> k + nbytes bits \<le> j \<Longrightarrow> store_9bit_loop buf k val bits v p ! j = buf ! j"
proof (induction buf k val bits v p rule: store_9bit_loop.induct)
  case (1 buf k val bits v_bits p)
  show ?case
  proof (cases "0 < bits")
    case False
    then show ?thesis by (subst store_9bit_loop.simps) simp
  next
    case True
    with "1.prems" have j: "j < k + 1 \<or> k + 1 + nbytes (bits - 8) \<le> j" and jk: "j \<noteq> k"
      by (auto simp: nbytes_step)
    note ih = "1.IH" [OF True refl refl refl]
    show ?thesis
      using True ih(1) [OF _ _ j] ih(2) [OF _ _ j] ih(3) [OF _ j] jk
      apply (subst store_9bit_loop.simps)
      apply (simp add: Let_def split: list.splits)
      done
  qed
qed


lemma store_9bit_loop_inside:
  "8 \<le> v \<Longrightarrow> v \<le> 16 \<Longrightarrow> k + nbytes bits \<le> length buf \<Longrightarrow> d < nbytes bits \<Longrightarrow> b < 8 \<Longrightarrow>
   bit (store_9bit_loop buf k val bits v p ! (k + d)) b = pending val (nat v) p (8 * d + 7 - b)"
proof (induction buf k val bits v p arbitrary: d rule: store_9bit_loop.induct)
  case (1 buf k val bits v_bits p)
  from "1.prems" have pos: "0 < bits"
    by (cases "0 < bits") (simp_all add: nbytes_done)
  let ?byte = "ucast (drop_bit (nat (v_bits - 8)) val) :: u8"
  let ?buf1 = "buf[k := ?byte]"
  have nb: "nbytes bits = Suc (nbytes (bits - 8))"
    using pos by (rule nbytes_step)
  have klen: "k < length buf" and room: "k + 1 + nbytes (bits - 8) \<le> length ?buf1"
    using "1.prems"(3) nb by simp_all
  note ih = "1.IH" [OF pos refl refl refl]
  show ?case
  proof (cases d)
    case 0
    have "store_9bit_loop buf k val bits v_bits p ! k = ?buf1 ! k"
      using pos store_9bit_loop_outside [of k "k + 1" _ ?buf1]
      by (subst store_9bit_loop.simps) (simp add: Let_def split: list.splits)
    also have "\<dots> = ?byte"
      using klen by simp
    finally show ?thesis
      using 0 "1.prems"(1,2,5) pending_head [of "nat v_bits" b val p] by (simp add: nat_diff_distrib)
  next
    case (Suc d')
    with "1.prems"(4) nb have d': "d' < nbytes (bits - 8)" by simp
    show ?thesis
    proof (cases "v_bits - 8 < 8")
      case False
      then have v': "8 \<le> v_bits - 8" "v_bits - 8 \<le> 16"
        using "1.prems"(2) by simp_all
      have "bit (store_9bit_loop ?buf1 (k + 1) val (bits - 8) (v_bits - 8) p ! (k + 1 + d')) b
          = pending val (nat (v_bits - 8)) p (8 * d' + 7 - b)"
        by (rule ih(3) [OF False v' room d' "1.prems"(5)])
      moreover have "pending val (nat (v_bits - 8)) p (8 * d' + 7 - b) = pending val (nat v_bits) p (8 * d' + 7 - b + 8)"
        using pending_keep [of "nat v_bits" val p] "1.prems"(1) by (simp add: nat_diff_distrib)
      ultimately show ?thesis
        using pos False Suc "1.prems"(5)
        by (subst store_9bit_loop.simps) (simp add: Let_def)
    next
      case True
      then have v': "8 \<le> v_bits - 8 + 9" "v_bits - 8 + 9 \<le> 16"
        using "1.prems"(1) by simp_all
      have nv: "nat (v_bits - 8 + 9) = nat v_bits + 1" "nat (1 + v_bits) = Suc (nat v_bits)"
        using "1.prems"(1) by simp_all
      have vb: "8 \<le> nat v_bits" "nat v_bits \<le> 16"
        using "1.prems"(1,2) by simp_all
      show ?thesis
      proof (cases p)
        case Nil
        have "bit (store_9bit_loop ?buf1 (k + 1) (push_bit 9 val) (bits - 8) (v_bits - 8 + 9) [] ! (k + 1 + d')) b
            = pending (push_bit 9 val) (nat (v_bits - 8 + 9)) [] (8 * d' + 7 - b)"
          by (rule ih(1) [OF True Nil v' room d' "1.prems"(5)])
        then show ?thesis
          using pos True Nil Suc "1.prems"(5) pending_load_nil [OF vb, of val "8 * d' + 7 - b"]
          by (subst store_9bit_loop.simps) (simp add: Let_def nv)
      next
        case (Cons x xs)
        have "bit (store_9bit_loop ?buf1 (k + 1) (push_bit 9 val OR 0x100 OR ucast x) (bits - 8) (v_bits - 8 + 9) xs ! (k + 1 + d')) b
            = pending (push_bit 9 val OR 0x100 OR ucast x) (nat (v_bits - 8 + 9)) xs (8 * d' + 7 - b)"
          by (rule ih(2) [OF True Cons v' room d' "1.prems"(5)])
        then show ?thesis
          using pos True Cons Suc "1.prems"(5) pending_load_cons [OF vb, of val x xs "8 * d' + 7 - b"]
          by (subst store_9bit_loop.simps) (simp add: Let_def nv)
      qed
    qed
  qed
qed


lemma frames_nth:
  "j < length xs \<Longrightarrow> r < 9 \<Longrightarrow>
   frames xs (9 * j + r) = (if r = 0 then True else bit (xs ! j) (8 - r))"
proof (induction xs arbitrary: j)
  case Nil
  then show ?case by simp
next
  case (Cons x xs)
  show ?case
  proof (cases j)
    case 0
    then show ?thesis using Cons.prems by simp
  next
    case (Suc j')
    then have "frames (x # xs) (9 * j + r) = frames xs (9 * j' + r)"
      by simp
    then show ?thesis
      using Cons.IH [of j'] Cons.prems Suc by simp
  qed
qed

lemma tx_bit_split:
  "tx_bit buf (8 * k + m) = bit (buf ! (k + m div 8)) (7 - m mod 8)"
  by (simp add: tx_bit_def)

lemma store_9bit_loop_tx_bit:
  assumes "8 \<le> v" "v \<le> 16" "k + nbytes bits \<le> length buf" "m < 8 * nbytes bits"
  shows "tx_bit (store_9bit_loop buf k val bits v p) (8 * k + m) = pending val (nat v) p m"
proof -
  have d: "m div 8 < nbytes bits" using assms(4) by (simp add: less_mult_imp_div_less mult.commute)
  have b: "7 - m mod 8 < 8" by simp
  have "8 * (m div 8) + 7 - (7 - m mod 8) = m"
    by (simp add: mult_div_mod_eq)
  with store_9bit_loop_inside [OF assms(1,2,3) d b, of val p] show ?thesis
    by (simp add: tx_bit_split)
qed

lemma store_9bit_loop_tx_bit_before:
  "n < 8 * k \<Longrightarrow> tx_bit (store_9bit_loop buf k val bits v p) n = tx_bit buf n"
  by (simp add: tx_bit_def store_9bit_loop_outside less_mult_imp_div_less mult.commute)


lemma store_9bit_at_tx_buf:
  "tx_buf (store_9bit_at pn i p) =
     store_9bit_loop (tx_buf pn) (i div 8) (first_val (tx_buf pn) i p)
       (9 * int (length p) + int (i mod 8)) (int (i mod 8) + 9) (tl p)"
proof -
  have "nat (8 - int (i mod 8)) = 8 - i mod 8"
    by (simp add: nat_diff_distrib')
  then show ?thesis
    by (cases p) (simp_all add: store_9bit_at_def first_val_def Let_def)
qed

lemma nbytes_room:
  assumes "i + 9 * l \<le> 504"
  shows "i div 8 + nbytes (9 * int l + int (i mod 8)) \<le> 63"
proof -
  have "nbytes (9 * int l + int (i mod 8)) = (9 * l + i mod 8 + 7) div 8"
    unfolding nbytes_def by (simp add: nat_div_distrib nat_add_distrib)
  moreover have "9 * l + i mod 8 + 7 \<le> 8 * (63 - i div 8) + 7"
    using assms mult_div_mod_eq [of 8 i] by linarith
  then have "(9 * l + i mod 8 + 7) div 8 \<le> (8 * (63 - i div 8) + 7) div 8"
    by (rule div_le_mono)
  moreover have "i div 8 \<le> 63"
    using assms by simp
  ultimately show ?thesis by linarith
qed

lemma nbytes_cover: "m < 9 * l \<Longrightarrow> i mod 8 + m < 8 * nbytes (9 * int l + int (i mod 8))"
proof -
  have "nbytes (9 * int l + int (i mod 8)) = (9 * l + i mod 8 + 7) div 8"
    unfolding nbytes_def by (simp add: nat_div_distrib nat_add_distrib)
  moreover assume "m < 9 * l"
  ultimately show ?thesis by presburger
qed

lemma first_val_low:
  "p = x # xs \<Longrightarrow> m < 9 \<Longrightarrow>
   bit (first_val buf i p) (8 - m) = (if m = 0 then False else bit x (8 - m))"
  by (simp add: first_val_def Let_def bit_load0)

lemma first_val_high:
  "m < i mod 8 \<Longrightarrow> bit (first_val buf i p) (i mod 8 + 8 - m) = bit (buf ! (i div 8)) (7 - m)"
proof -
  assume m: "m < i mod 8"
  let ?vb = "i mod 8"
  let ?val0 = "drop_bit (8 - ?vb) (ucast (buf ! (i div 8))) :: u32"
  have le: "?vb + 8 - m \<le> 16" and ge: "\<not> ?vb + 8 - m < 9" "?vb + 8 - m \<noteq> 8" "\<not> ?vb + 8 - m < 8"
    using m by simp_all
  have "bit (first_val buf i p) (?vb + 8 - m) = bit ?val0 (?vb + 8 - m - 9)"
    using m le ge by (cases p) (simp_all add: first_val_def Let_def bit_load0 bit_shift9)
  also have "\<dots> = bit (buf ! (i div 8)) (7 - m)"
  proof -
    have "8 - ?vb + (?vb + 8 - m - 9) = 7 - m" using m by simp
    then show ?thesis
      by (simp add: bit_drop_bit_eq bit_ucast_u8_u32)
  qed
  finally show ?thesis .
qed

lemma store_9bit_at_new:
  assumes len: "length (tx_buf pn) = 63" and cap: "i + 9 * length p \<le> 504"
    and m: "m < 9 * length p"
  shows "tx_bit (tx_buf (store_9bit_at pn i p)) (i + m) = packed_bit p m"
proof -
  from m obtain x xs where p: "p = x # xs" by (cases p) auto
  let ?vb = "i mod 8"
  let ?bits = "9 * int (length p) + int ?vb"
  have i: "i + m = 8 * (i div 8) + (?vb + m)" by simp
  have room: "i div 8 + nbytes ?bits \<le> length (tx_buf pn)"
    using nbytes_room [OF cap] len by simp
  have "tx_bit (tx_buf (store_9bit_at pn i p)) (i + m)
      = pending (first_val (tx_buf pn) i p) (nat (int ?vb + 9)) (tl p) (?vb + m)"
    unfolding store_9bit_at_tx_buf i
    by (rule store_9bit_loop_tx_bit [OF _ _ room nbytes_cover [OF m]]) simp_all
  also have "\<dots> = pending (first_val (tx_buf pn) i p) (?vb + 9) xs (?vb + m)"
    by (simp add: p nat_add_distrib)
  also have "\<dots> = packed_bit p m"
  proof (cases "m < 9")
    case True
    then show ?thesis
      using first_val_low [OF p True, of "tx_buf pn" i]
      by (simp add: pending_def packed_bit_def p)
  next
    case False
    define j where "j = m div 9 - 1"
    have m9: "9 \<le> m" using False by simp
    have dj: "m div 9 = Suc j" unfolding j_def using m9 by presburger
    have mj: "m - 9 = 9 * j + m mod 9" unfolding j_def using m9 by presburger
    have "m < Suc (length xs) * 9" using m p by simp
    then have "m div 9 < Suc (length xs)" by (rule less_mult_imp_div_less)
    with dj have j: "j < length xs" by simp
    have "frames xs (m - 9) = (if m mod 9 = 0 then True else bit (xs ! j) (8 - m mod 9))"
      unfolding mj by (rule frames_nth [OF j]) simp
    then show ?thesis
      using False by (simp add: pending_def packed_bit_def p dj)
  qed
  finally show ?thesis .
qed

lemma store_9bit_at_old:
  assumes len: "length (tx_buf pn) = 63" and cap: "i + 9 * length p \<le> 504" and n: "n < i"
  shows "tx_bit (tx_buf (store_9bit_at pn i p)) n = tx_bit (tx_buf pn) n"
proof (cases "n < 8 * (i div 8)")
  case True
  then show ?thesis
    unfolding store_9bit_at_tx_buf by (rule store_9bit_loop_tx_bit_before)
next
  case False
  let ?vb = "i mod 8"
  let ?bits = "9 * int (length p) + int ?vb"
  define m where "m = n - 8 * (i div 8)"
  have nm: "n = 8 * (i div 8) + m" and m: "m < ?vb"
    using False n by (auto simp: m_def) presburger
  have room: "i div 8 + nbytes ?bits \<le> length (tx_buf pn)"
    using nbytes_room [OF cap] len by simp
  have "0 < ?bits" using m by simp
  then have "m < 8 * nbytes ?bits"
    using m by (simp add: nbytes_step)
  then have "tx_bit (tx_buf (store_9bit_at pn i p)) n
      = pending (first_val (tx_buf pn) i p) (nat (int ?vb + 9)) (tl p) m"
    unfolding store_9bit_at_tx_buf nm
    by (intro store_9bit_loop_tx_bit [OF _ _ room]) simp_all
  also have "\<dots> = bit (first_val (tx_buf pn) i p) (?vb + 8 - m)"
    using m by (simp add: pending_def nat_add_distrib add.commute)
  also have "\<dots> = bit (tx_buf pn ! (i div 8)) (7 - m)"
    by (rule first_val_high [OF m])
  also have "\<dots> = tx_bit (tx_buf pn) n"
    using m unfolding nm tx_bit_split by simp
  finally show ?thesis .
qed


lemma extract_loop_length: "length (extract_loop buf n k val v) = n"
  by (induction n arbitrary: k val v) (simp_all add: Let_def)

lemma bit_refill:
  "c < 16 \<Longrightarrow> bit (push_bit 8 (val :: u32) OR ucast (x :: u8)) c = (if c < 8 then bit x c else bit val (c - 8))"
  by (simp add: bit_or_iff bit_push_bit_iff bit_ucast_u8_u32 bit_u8_high)

lemma bit_byte_of: "b < 8 \<Longrightarrow> bit (ucast (drop_bit n (w :: u32)) :: u8) b = bit w (n + b)"
  by (simp add: bit_ucast_iff bit_drop_bit_eq)

lemma tx_bit_back: "c < 8 \<Longrightarrow> tx_bit buf (8 * (k + 1) - 1 - c) = bit (buf ! k) c"
proof -
  assume c: "c < 8"
  then have "8 * (k + 1) - 1 - c = 8 * k + (7 - c)" by simp
  then show ?thesis using c by (simp only: tx_bit_split) simp
qed

lemma extract_loop_bit:
  assumes "v < 8" "v \<le> 8 * k" "\<forall>c<v. bit val c = tx_bit buf (8 * k - 1 - c)" "j < n" "b < 8"
  shows "bit (extract_loop buf n k val v ! j) b = tx_bit buf (8 * k - v + 8 * j + 7 - b)"
  using assms
proof (induction n arbitrary: k val j)
  case 0
  then show ?case by simp
next
  case (Suc n)
  let ?val1 = "push_bit 8 val OR ucast (buf ! k)"
  have inv: "\<forall>c<v. bit ?val1 c = tx_bit buf (8 * (k + 1) - 1 - c)"
  proof (intro allI impI)
    fix c assume "c < v"
    with Suc.prems(1) have c: "c < 8" by simp
    then show "bit ?val1 c = tx_bit buf (8 * (k + 1) - 1 - c)"
      by (simp only: tx_bit_back [OF c]) (simp add: bit_refill)
  qed
  show ?case
  proof (cases j)
    case 0
    have "bit (ucast (drop_bit v ?val1) :: u8) b = bit ?val1 (v + b)"
      using Suc.prems(5) by (rule bit_byte_of)
    also have "\<dots> = tx_bit buf (8 * k - v + 7 - b)"
    proof (cases "v + b < 8")
      case True
      have "8 * k - v + 7 - b = 8 * (k + 1) - 1 - (v + b)"
        using Suc.prems(2) by simp
      then show ?thesis
        using True by (simp only: tx_bit_back [OF True]) (simp add: bit_refill)
    next
      case False
      then have "v + b - 8 < v" "8 * k - 1 - (v + b - 8) = 8 * k - v + 7 - b"
        using Suc.prems(1,2,5) by simp_all
      then show ?thesis
        using False Suc.prems(1,3,5) by (simp add: bit_refill)
    qed
    finally show ?thesis
      using 0 Suc.prems(1) by (simp add: Let_def)
  next
    case (Suc j')
    have "bit (extract_loop buf n (k + 1) ?val1 v ! j') b = tx_bit buf (8 * (k + 1) - v + 8 * j' + 7 - b)"
      using Suc.prems(1,2,4,5) Suc
      by (intro Suc.IH inv) simp_all
    moreover have "8 * (k + 1) - v + 8 * j' + 7 - b = 8 * k - v + 8 * j + 7 - b"
      using Suc Suc.prems(1,2) by simp
    ultimately show ?thesis
      using Suc Suc.prems(1) by (simp add: Let_def)
  qed
qed

lemma extract_data_length: "length (extract_data n buf s) = n"
  by (simp add: extract_data_def Let_def extract_loop_length)

lemma extract_data_bit:
  assumes "j < n" "b < 8"
  shows "bit (extract_data n buf s ! j) b = tx_bit buf (s + 8 * j + 7 - b)"
proof (cases "s mod 8 = 0")
  case True
  have "bit (extract_loop buf n (s div 8) 0 0 ! j) b = tx_bit buf (8 * (s div 8) - 0 + 8 * j + 7 - b)"
    by (rule extract_loop_bit [OF _ _ _ assms]) simp_all
  moreover have "8 * (s div 8) = s" using True by presburger
  ultimately show ?thesis
    using True by (simp add: extract_data_def)
next
  case False
  let ?k = "s div 8"
  let ?v = "8 - s mod 8"
  have inv: "\<forall>c<?v. bit (ucast (buf ! ?k) :: u32) c = tx_bit buf (8 * (?k + 1) - 1 - c)"
  proof (intro allI impI)
    fix c assume "c < ?v"
    then have c: "c < 8" by simp
    show "bit (ucast (buf ! ?k) :: u32) c = tx_bit buf (8 * (?k + 1) - 1 - c)"
      by (simp only: tx_bit_back [OF c] bit_ucast_u8_u32)
  qed
  have "bit (extract_loop buf n (?k + 1) (ucast (buf ! ?k)) ?v ! j) b
      = tx_bit buf (8 * (?k + 1) - ?v + 8 * j + 7 - b)"
    using False by (intro extract_loop_bit [OF _ _ inv assms]) simp_all
  moreover have "8 * (?k + 1) - ?v = s"
    using mult_div_mod_eq [of 8 s] by simp
  ultimately show ?thesis
    using False by (simp add: extract_data_def Let_def)
qed

lemma extract_data_one:
  assumes "\<And>b. b < 8 \<Longrightarrow> tx_bit buf (s + 7 - b) = bit x b"
  shows "extract_data 1 buf s = [x]"
proof -
  obtain w where w: "extract_data 1 buf s = [w]"
    using extract_data_length [of 1 buf s] by (cases "extract_data 1 buf s") auto
  have "bit w b = bit x b" for b
  proof (cases "b < 8")
    case True
    then show ?thesis
      using extract_data_bit [of 0 1 b buf s] assms [OF True] w by simp
  next
    case False
    then show ?thesis by (simp add: bit_u8_high)
  qed
  then have "w = x" by (rule bit_eqI)
  with w show ?thesis by simp
qed


subsection \<open>Whole calls of the packer\<close>

lemma store_9bit_fits:
  "spi_bits pn + 9 * length p \<le> 504 \<Longrightarrow> store_9bit b pn p = (0, store_9bit_at pn (spi_bits pn) p)"
  by (simp add: store_9bit_def Let_def)

lemma store_9bit_at_fields:
  "spi_bits (store_9bit_at pn i p) = i + 9 * length p"
  "calls (store_9bit_at pn i p) = calls pn"
  "spi (store_9bit_at pn i p) = spi pn"
  "rx_buf (store_9bit_at pn i p) = rx_buf pn"
  by (simp_all add: store_9bit_at_def Let_def)

lemma spi_send_flush:
  "spi pn \<Longrightarrow> spi_bits pn \<noteq> 0 \<Longrightarrow>
   calls (snd (spi_send b pn False)) =
     calls pn @ [SpiSync ((spi_bits pn + 7) div 8) (take ((spi_bits pn + 7) div 8) (tx_buf pn)) False]
   \<and> spi_bits (snd (spi_send b pn False)) = 0
   \<and> tx_buf (snd (spi_send b pn False)) = tx_buf pn"
  by (simp add: spi_send_def bus_call_def Let_def split: prod.splits)



lemma tx_bit_take: "n < 8 * t \<Longrightarrow> tx_bit (take t buf) n = tx_bit buf n"
  by (simp add: tx_bit_def less_mult_imp_div_less mult.commute)


section \<open>Claims about the bit-stream packer\<close>

text \<open>
  Claim C1 (as amended).  \<^verbatim>\<open>extract_data\<close> reads consecutive 8-bit groups and cannot skip
  marker bits, so one call from bit 0 does not return the packed bytes.  What holds: for every
  non-empty byte array \<open>B\<close> with \<open>9 * length B \<le> 504\<close>, packed into an empty accumulator
  and flushed, the transfer carries \<open>(9 * length B + 7) div 8\<close> bytes, and reading one byte
  from them at bit \<open>9 * k + 1\<close>, just behind the \<open>k\<close>-th marker, gives \<open>B ! k\<close>.
\<close>

theorem store_9bit_extract_roundtrip:
  assumes "spi pn" and "spi_bits pn = 0" and "length (tx_buf pn) = 63"
    and "B \<noteq> []" and "9 * length B \<le> 504"
  shows "\<exists>sent. calls (snd (spi_send b (snd (store_9bit b pn B)) False))
             = calls pn @ [SpiSync ((9 * length B + 7) div 8) sent False]
           \<and> (\<forall>k. k < length B \<longrightarrow> extract_data 1 sent (9 * k + 1) = [B ! k])"
proof -
  let ?pn1 = "store_9bit_at pn 0 B"
  let ?t = "(9 * length B + 7) div 8"
  let ?sent = "take ?t (tx_buf ?pn1)"
  have st: "store_9bit b pn B = (0, ?pn1)"
    using assms(2,5) store_9bit_fits [of pn B b] by simp
  have nz: "spi_bits ?pn1 \<noteq> 0" "spi ?pn1"
    using assms(1,4) by (simp_all add: store_9bit_at_fields)
  have calls: "calls (snd (spi_send b ?pn1 False)) = calls pn @ [SpiSync ?t ?sent False]"
    using spi_send_flush [OF nz(2) nz(1), of b] by (simp add: store_9bit_at_fields)
  have "extract_data 1 ?sent (9 * k + 1) = [B ! k]" if k: "k < length B" for k
  proof (rule extract_data_one)
    fix c :: nat assume c: "c < 8"
    define m where "m = 9 * k + 8 - c"
    define r where "r = 8 - c"
    have r: "0 < r" "r < 9" "8 - r = c" and e: "m = 9 * k + r"
      using c by (simp_all add: m_def r_def)
    have m: "m < 9 * length B" "m mod 9 = r" "m div 9 = k"
      using k r(1,2) unfolding e by simp_all
    have "m < 8 * ?t" using m(1) by simp
    then have "tx_bit ?sent m = tx_bit (tx_buf ?pn1) (0 + m)"
      by (simp add: tx_bit_take)
    also have "\<dots> = packed_bit B m"
      using assms(3,5) m(1) by (intro store_9bit_at_new) simp_all
    also have "\<dots> = bit (B ! k) c"
      using m r by (simp add: packed_bit_def)
    finally show "tx_bit ?sent (9 * k + 1 + 7 - c) = bit (B ! k) c"
      by (simp add: m_def add.commute)
  qed
  with calls show ?thesis
    unfolding st by auto
qed


theorem store_9bit_extract_roundtrip_witness:
  "spi example_panel \<and> spi_bits example_panel = 0 \<and> length (tx_buf example_panel) = 63
   \<and> [0x12, 0x34 :: u8] \<noteq> [] \<and> 9 * length [0x12, 0x34 :: u8] \<le> 504
   \<and> (\<exists>sent. calls (snd (spi_send (bus_data []) (snd (store_9bit (bus_data []) example_panel [0x12, 0x34])) False))
              = [SpiSync 3 sent False]
            \<and> extract_data 1 sent 1 = [0x12] \<and> extract_data 1 sent 10 = [0x34])"
proof -
  have h: "spi example_panel" "spi_bits example_panel = 0" "length (tx_buf example_panel) = 63"
    "[0x12, 0x34 :: u8] \<noteq> []" "9 * length [0x12, 0x34 :: u8] \<le> 504"
    by (simp_all add: example_panel_def)
  from store_9bit_extract_roundtrip [OF h, of "bus_data []"]
  obtain sent where
    c: "calls (snd (spi_send (bus_data []) (snd (store_9bit (bus_data []) example_panel [0x12, 0x34])) False))
          = calls example_panel @ [SpiSync ((9 * length [0x12, 0x34 :: u8] + 7) div 8) sent False]"
    and e: "\<forall>k. k < length [0x12, 0x34 :: u8] \<longrightarrow> extract_data 1 sent (9 * k + 1) = [[0x12, 0x34] ! k]"
    by blast
  from e [rule_format, of 0] e [rule_format, of 1]
  have "extract_data 1 sent 1 = [0x12]" "extract_data 1 sent 10 = [0x34]"
    by simp_all
  moreover from c
  have "calls (snd (spi_send (bus_data []) (snd (store_9bit (bus_data []) example_panel [0x12, 0x34])) False))
          = [SpiSync 3 sent False]"
    by (simp add: example_panel_def)
  ultimately show ?thesis
    using h by blast
qed


text \<open>
  The claim as stated fails: for \<open>B = [0xff]\<close> the flushed bytes are \<open>0x7f, 0x80\<close>, and
  unpacking one byte from bit 0 gives \<open>0x7f\<close>.
\<close>

theorem store_9bit_extract_counterexample:
  "calls (snd (spi_send (bus_data []) (snd (store_9bit (bus_data []) example_panel [0xff])) False))
     = [SpiSync 2 [0x7f, 0x80] False]
   \<and> extract_data 1 [0x7f, 0x80] 0 \<noteq> [0xff]"
  by code_simp

text \<open>
  Claim C2 (as amended).  The marker is 0 for the first byte of every call of
  \<^verbatim>\<open>store_9bit\<close> and 1 for the other bytes of that call, wherever in the accumulator the
  call starts; the bits stored before are kept.  (No flush is needed for a marker 0: a second
  call without a flush starts with marker 0 again.)
\<close>

theorem store_9bit_marker:
  assumes "length (tx_buf pn) = 63" and "spi_bits pn + 9 * length p \<le> 504"
  shows "(\<forall>n. n < spi_bits pn \<longrightarrow> tx_bit (tx_buf (snd (store_9bit b pn p))) n = tx_bit (tx_buf pn) n)
       \<and> (\<forall>k. k < length p \<longrightarrow> tx_bit (tx_buf (snd (store_9bit b pn p))) (spi_bits pn + 9 * k) = (k \<noteq> 0))"
proof -
  have st: "snd (store_9bit b pn p) = store_9bit_at pn (spi_bits pn) p"
    using assms(2) by (simp add: store_9bit_fits)
  have "tx_bit (tx_buf (store_9bit_at pn (spi_bits pn) p)) (spi_bits pn + 9 * k) = (k \<noteq> 0)"
    if "k < length p" for k
    using that store_9bit_at_new [OF assms, of "9 * k"] by (simp add: packed_bit_def)
  then show ?thesis
    unfolding st using store_9bit_at_old [OF assms] by simp
qed


theorem store_9bit_marker_witness:
  "length (tx_buf (example_panel\<lparr>spi_bits := 9\<rparr>)) = 63
   \<and> spi_bits (example_panel\<lparr>spi_bits := 9\<rparr>) + 9 * length [0xaa, 0xbb :: u8] \<le> 504
   \<and> \<not> tx_bit (tx_buf (snd (store_9bit (bus_data []) (example_panel\<lparr>spi_bits := 9\<rparr>) [0xaa, 0xbb]))) 9
   \<and> tx_bit (tx_buf (snd (store_9bit (bus_data []) (example_panel\<lparr>spi_bits := 9\<rparr>) [0xaa, 0xbb]))) 18"
proof -
  let ?pn = "example_panel\<lparr>spi_bits := 9\<rparr>"
  have h: "length (tx_buf ?pn) = 63" "spi_bits ?pn + 9 * length [0xaa, 0xbb :: u8] \<le> 504"
    by (simp_all add: example_panel_def)
  note m = store_9bit_marker [OF h, of "bus_data []", THEN conjunct2, rule_format]
  have "\<not> tx_bit (tx_buf (snd (store_9bit (bus_data []) ?pn [0xaa, 0xbb]))) 9"
    using m [of 0] by simp
  moreover have "tx_bit (tx_buf (snd (store_9bit (bus_data []) ?pn [0xaa, 0xbb]))) 18"
    using m [of 1] by simp
  ultimately show ?thesis
    using h by blast
qed


text \<open>
  The claim as stated fails: two calls without a flush in between, the first with \<open>[0xff]\<close>,
  the second with \<open>[0xaa]\<close>; nothing is transferred, 18 bits are accumulated, and the
  marker of the second byte (bit 9) is 0.
\<close>

theorem store_9bit_marker_counterexample:
  "calls (snd (store_9bit (bus_data []) (snd (store_9bit (bus_data []) example_panel [0xff])) [0xaa])) = []
   \<and> spi_bits (snd (store_9bit (bus_data []) (snd (store_9bit (bus_data []) example_panel [0xff])) [0xaa])) = 18
   \<and> \<not> tx_bit (tx_buf (snd (store_9bit (bus_data []) (snd (store_9bit (bus_data []) example_panel [0xff])) [0xaa]))) 9"
  by code_simp




section \<open>Claims about the interpreter\<close>

subsection \<open>Unfolding the loop\<close>

lemma send_loop_break:
  "cmd_step oc b type cs st = Break st1 \<Longrightarrow> send_loop oc b type cs st = send_end b type st1"
  by (subst send_loop.simps) simp

lemma send_loop_continue:
  "cmd_step oc b type cs st = Continue st1 \<Longrightarrow> send_loop oc b type cs st = send_loop oc b type cs st1"
  by (subst send_loop.simps) simp


subsection \<open>Field patch\<close>

lemma patch_loop_0xabc:
  "patch_loop cb 4 12 0xABC = cb[0 := (cb ! 0 AND 0x0F) OR 0xC0, 1 := 0xAB]"
proof -
  have m1: "(ucast (NOT (push_bit 4 (0xff :: u32))) :: u8) = 0x0F" by code_simp
  have m2: "(ucast (push_bit 4 (0xABC :: u32)) :: u8) = 0xC0" by code_simp
  have m3: "drop_bit 4 (0xABC :: u32) = 0xAB" by code_simp
  have m4: "(ucast (NOT (0xff :: u32)) :: u8) = 0" by code_simp
  have m5: "(ucast (0xAB :: u32) :: u8) = 0xAB" by code_simp
  have m6: "drop_bit 8 (0xAB :: u32) = 0" by code_simp
  have n1: "(4294963215 :: u8) = 0x0F" "(43968 :: u8) = 0xC0" by simp_all
  have s1: "patch_loop cb 4 12 0xABC = patch_loop (cb[0 := (cb ! 0 AND 0x0F) OR 0xC0]) 8 8 0xAB"
    by (subst patch_loop.simps) (simp add: Let_def m1 m2 m3 n1)
  have n2: "(4294967040 :: u8) = 0" by simp
  have s2: "patch_loop cb' 8 8 0xAB = patch_loop (cb'[1 := 0xAB]) 16 0 0" for cb'
    by (subst patch_loop.simps) (simp add: Let_def m4 m5 m6 n2)
  have s3: "patch_loop cb' 16 0 0 = cb'" for cb'
    by (subst patch_loop.simps) simp
  show ?thesis
    by (simp only: s1 s2 s3)
qed

lemma const_0xabc:
  "(ucast (0xBC :: u8) OR push_bit 8 (ucast (0x0A :: u8)) OR push_bit 16 (ucast (0 :: u8))
      OR push_bit 24 (ucast (0 :: u8)) :: u32) = 0xABC"
  by code_simp

lemma field_patch_run:
  assumes "decode oc raw = Patch (S_CONST oc)"
  shows "cmd_buf (snd (send_cmd_list oc b pn [raw, 4, 12, 0xBC, 0x0A, 0, 0] type cb))
           = patch_loop cb 4 12 0xABC"
  unfolding send_cmd_list_def
  apply simp
  apply (subst send_loop.simps)
  apply (simp add: cmd_step_def Let_def assms field_patch_def patch_value_def const_0xabc
           loop_tail_def send_end_def case_prod_beta)
  done

text \<open>
  Claim C4 (as amended).  The destination offset of a field patch counts bits from the least
  significant bit of byte 0.  For every 32-byte staging buffer, the instruction with
  \<open>dest_start = 4\<close>, \<open>dest_len = 12\<close> and the constant \<open>0xABC\<close> puts bit \<open>j\<close> of the
  constant at buffer bit \<open>4 + j\<close> in that numbering (bits 4 .. 15) and leaves every other
  bit as it was.
\<close>

theorem field_patch_const_lsb_first:
  assumes "length cb = 32" and "decode oc raw = Patch (S_CONST oc)"
  shows "\<forall>n. n < 256 \<longrightarrow>
           lsb_bit (cmd_buf (snd (send_cmd_list oc b pn [raw, 4, 12, 0xBC, 0x0A, 0, 0] type cb))) n
             = (if 4 \<le> n \<and> n < 16 then bit (0xABC :: u32) (n - 4) else lsb_bit cb n)"
proof (intro allI impI)
  fix n :: nat assume n: "n < 256"
  let ?cb = "cb[0 := (cb ! 0 AND 0x0F) OR 0xC0, 1 := 0xAB]"
  have run: "cmd_buf (snd (send_cmd_list oc b pn [raw, 4, 12, 0xBC, 0x0A, 0, 0] type cb)) = ?cb"
    by (simp only: field_patch_run [OF assms(2)] patch_loop_0xabc)
  show "lsb_bit (cmd_buf (snd (send_cmd_list oc b pn [raw, 4, 12, 0xBC, 0x0A, 0, 0] type cb))) n
      = (if 4 \<le> n \<and> n < 16 then bit (0xABC :: u32) (n - 4) else lsb_bit cb n)"
  proof (cases "n < 16")
    case False
    then have "n div 8 \<noteq> 0" "n div 8 \<noteq> 1" by simp_all
    then show ?thesis
      using False unfolding run lsb_bit_def by simp
  next
    case True
    then have "n \<in> set [0..<16]"
      by simp
    then show ?thesis
      unfolding run lsb_bit_def using assms(1)
      by (auto simp: upt_rec bit_and_iff bit_or_iff)
  qed
qed

theorem field_patch_const_lsb_first_witness:
  "length (replicate 32 (0xff :: u8)) = 32
   \<and> decode example_codes 0x6c = Patch (S_CONST example_codes)
   \<and> lsb_bit (cmd_buf (snd (send_cmd_list example_codes (bus_data []) example_panel
              [0x6c, 4, 12, 0xBC, 0x0A, 0, 0] TYPE_MIPI (replicate 32 0xff)))) 3
   \<and> \<not> lsb_bit (cmd_buf (snd (send_cmd_list example_codes (bus_data []) example_panel
              [0x6c, 4, 12, 0xBC, 0x0A, 0, 0] TYPE_MIPI (replicate 32 0xff)))) 4
   \<and> lsb_bit (cmd_buf (snd (send_cmd_list example_codes (bus_data []) example_panel
              [0x6c, 4, 12, 0xBC, 0x0A, 0, 0] TYPE_MIPI (replicate 32 0xff)))) 16"
proof -
  have h: "length (replicate 32 (0xff :: u8)) = 32"
    "decode example_codes 0x6c = Patch (S_CONST example_codes)"
    by (simp_all add: decode_def example_codes_def)
  note t = field_patch_const_lsb_first [OF h, of "bus_data []" example_panel TYPE_MIPI, rule_format]
  have "lsb_bit (replicate 32 (0xff :: u8)) 3" "lsb_bit (replicate 32 (0xff :: u8)) 16"
    by (simp_all add: lsb_bit_def)
  then show ?thesis
    using h t [of 3] t [of 4] t [of 16] by simp
qed

text \<open>
  The claim as stated fails: with most-significant-bit-first numbering, bit 2 of a buffer filled
  with \<open>0xff\<close> lies in the range 0 .. 3 that should stay untouched, and the patch clears it
  (byte 0 becomes \<open>0xcf\<close>).
\<close>

theorem field_patch_const_counterexample:
  "tx_bit (replicate 32 0xff) 2
   \<and> \<not> tx_bit (cmd_buf (snd (send_cmd_list example_codes (bus_data []) example_panel
              [0x6c, 4, 12, 0xbc, 0x0a, 0, 0] TYPE_MIPI (replicate 32 0xff)))) 2"
  by code_simp

subsection \<open>Truncated streams\<close>

text \<open>
  Claim C6 (the code departs from it).  A write whose declared length exceeds what is left of
  the stream stops the loop without any transport call, but the result is the pending
  \<open>match\<close> value: 0 when no read has mismatched before, although the driver reports
  "Unexpected end of data" as an error.
\<close>

theorem truncated_write_not_reported:
  assumes "decode oc (cs ! cmd st) = Write len" and "1 < length_c st" and "length_c st - 1 < len"
    and "type \<noteq> TYPE_SPI"
  shows "send_loop oc b type cs st = (match_c st, st\<lparr>cmd := cmd st + 1, length_c := length_c st - 1\<rparr>)"
proof -
  have "cmd_step oc b type cs st = Break (st\<lparr>cmd := cmd st + 1, length_c := length_c st - 1\<rparr>)"
    using assms by (simp add: cmd_step_def Let_def write_insn_def)
  then show ?thesis
    using assms(4) by (simp add: send_loop_break send_end_def)
qed

theorem truncated_write_not_reported_witness:
  "decode example_codes ([0x05, 0x01, 0x02] ! 0) = Write 5
   \<and> fst (send_cmd_list example_codes (bus_data []) example_panel [0x05, 0x01, 0x02] TYPE_MIPI
          (replicate 32 0)) = 0
   \<and> calls (panel (snd (send_cmd_list example_codes (bus_data []) example_panel [0x05, 0x01, 0x02]
          TYPE_MIPI (replicate 32 0)))) = []"
proof -
  let ?st = "\<lparr>cmd = 0, length_c = length [0x05, 0x01, 0x02 :: u8], skip = False, match_c = 0,
             cmd_buf = replicate 32 0, panel = example_panel\<lparr>spi_bits := 0\<rparr>\<rparr>"
  have h: "decode example_codes ([0x05, 0x01, 0x02] ! cmd ?st) = Write 5"
    "1 < length_c ?st" "length_c ?st - 1 < 5" "TYPE_MIPI \<noteq> TYPE_SPI"
    by (simp_all add: decode_def example_codes_def TYPE_MIPI_def TYPE_SPI_def)
  show ?thesis
    using h(1) truncated_write_not_reported [OF h, of "bus_data []"]
    by (simp add: send_cmd_list_def example_panel_def)
qed

subsection \<open>Lane gates\<close>

text \<open>
  Claim C7 (the code departs from it).  After a lane gate that does not match, a
  set-maximum-return-size instruction is sent all the same: that branch does not test the
  skip flag, unlike the write, read and delay branches.
\<close>

theorem skipped_mrps_still_sent:
  assumes "decode oc g = IfLanes m" and "m \<noteq> lanes pn" and "decode oc r = Mrps"
  shows "calls (panel (snd (send_cmd_list oc b pn [g, r, v] TYPE_MIPI cb))) = calls pn @ [SetMaxReturn v]"
  unfolding send_cmd_list_def
  apply simp
  apply (subst send_loop.simps)
  apply (simp add: cmd_step_def Let_def assms)
  apply (subst send_loop.simps)
  apply (simp add: cmd_step_def Let_def assms bus_call_def loop_tail_def send_end_def
           TYPE_MIPI_def TYPE_SPI_def split: prod.splits)
  done

theorem skipped_mrps_still_sent_witness:
  "decode example_codes 0x79 = IfLanes 2 \<and> 2 \<noteq> lanes example_panel
   \<and> decode example_codes 0x63 = Mrps
   \<and> calls (panel (snd (send_cmd_list example_codes (bus_data []) example_panel [0x79, 0x63, 0x04]
          TYPE_MIPI (replicate 32 0)))) = [SetMaxReturn 0x04]"
proof -
  have h: "decode example_codes 0x79 = IfLanes 2" "2 \<noteq> lanes example_panel"
    "decode example_codes 0x63 = Mrps"
    by (simp_all add: decode_def example_codes_def example_panel_def)
  show ?thesis
    using h skipped_mrps_still_sent [OF h, of "bus_data []" 4 "replicate 32 0"]
    by (simp add: example_panel_def)
qed

subsection \<open>Command-interface reads\<close>

text \<open>
  Claim C9 (as amended).  A command-interface read is attempted once, and once more exactly
  when the first attempt returns \<^verbatim>\<open>-EPROTO\<close>.  For a DCS read the last return code is the
  result of the instruction, and a negative one ends the stream with it.  For a generic read
  the return code is discarded (the result is 0): its failure is never reported.
\<close>

theorem dsi_read_retry:
  "(let rq = (if generic then GenericRead (take 2 c) len else DcsRead (c ! 0) len);
        r1 = fst (b (calls pn) rq);
        r2 = fst (b (calls pn @ [rq]) rq)
    in (r1 \<noteq> - EPROTO \<longrightarrow>
          calls (snd (snd (dsi_read b generic pn c data len))) = calls pn @ [rq]
          \<and> fst (dsi_read b generic pn c data len) = (if generic then 0 else r1))
     \<and> (r1 = - EPROTO \<longrightarrow>
          calls (snd (snd (dsi_read b generic pn c data len))) = calls pn @ [rq, rq]
          \<and> fst (dsi_read b generic pn c data len) = (if generic then 0 else r2)))
   \<and> (type \<noteq> TYPE_I2C \<and> type \<noteq> TYPE_SPI \<and> \<not> skip st
        \<and> fst (dsi_read b generic (panel st) (rd cs (cmd st) 2) (replicate 8 0) n) < 0
      \<longrightarrow> (\<exists>st1. read_insn b type generic cs st n
                  = Return (fst (dsi_read b generic (panel st) (rd cs (cmd st) 2) (replicate 8 0) n)) st1))"
proof (intro conjI)
  show "let rq = (if generic then GenericRead (take 2 c) len else DcsRead (c ! 0) len);
        r1 = fst (b (calls pn) rq);
        r2 = fst (b (calls pn @ [rq]) rq)
    in (r1 \<noteq> - EPROTO \<longrightarrow>
          calls (snd (snd (dsi_read b generic pn c data len))) = calls pn @ [rq]
          \<and> fst (dsi_read b generic pn c data len) = (if generic then 0 else r1))
     \<and> (r1 = - EPROTO \<longrightarrow>
          calls (snd (snd (dsi_read b generic pn c data len))) = calls pn @ [rq, rq]
          \<and> fst (dsi_read b generic pn c data len) = (if generic then 0 else r2))"
    by (simp add: dsi_read_def bus_call_def Let_def case_prod_beta)
next
  show "type \<noteq> TYPE_I2C \<and> type \<noteq> TYPE_SPI \<and> \<not> skip st
        \<and> fst (dsi_read b generic (panel st) (rd cs (cmd st) 2) (replicate 8 0) n) < 0
      \<longrightarrow> (\<exists>st1. read_insn b type generic cs st n
                  = Return (fst (dsi_read b generic (panel st) (rd cs (cmd st) 2) (replicate 8 0) n)) st1)"
    by (simp add: read_insn_def read_dispatch_def loop_tail_def Let_def case_prod_beta)
qed

theorem dsi_read_retry_witness:
  "fst (bus_read_eproto (calls example_panel) (DcsRead 0x0a 1)) = - EPROTO
   \<and> calls (snd (snd (dsi_read bus_read_eproto False example_panel [0x0a, 0x00] (replicate 8 0) 1)))
       = [DcsRead 0x0a 1, DcsRead 0x0a 1]
   \<and> fst (dsi_read bus_read_eproto False example_panel [0x0a, 0x00] (replicate 8 0) 1) = - EPROTO
   \<and> fst (bus_read_eproto (calls example_panel) (GenericRead [0x0a, 0x00] 1)) = - EPROTO
   \<and> fst (dsi_read bus_read_eproto True example_panel [0x0a, 0x00] (replicate 8 0) 1) = 0
   \<and> fst (bus_data [] (calls example_panel) (DcsRead 0x0a 1)) \<noteq> - EPROTO
   \<and> calls (snd (snd (dsi_read (bus_data []) False example_panel [0x0a, 0x00] (replicate 8 0) 1)))
       = [DcsRead 0x0a 1]
   \<and> (\<exists>st1. read_insn bus_read_eproto TYPE_MIPI False [0x64, 0x0a, 0x00, 0x01, 0x29]
          \<lparr>cmd = 1, length_c = 4, skip = False, match_c = 0, cmd_buf = replicate 32 0,
           panel = example_panel\<rparr> 1 = Return (- EPROTO) st1)"
proof -
  let ?e = bus_read_eproto
  let ?st = "\<lparr>cmd = 1, length_c = 4, skip = False, match_c = 0, cmd_buf = replicate 32 (0 :: u8),
           panel = example_panel\<rparr>"
  have h: "fst (?e (calls example_panel) (DcsRead 0x0a 1)) = - EPROTO"
    "fst (?e (calls example_panel @ [DcsRead 0x0a 1]) (DcsRead 0x0a 1)) = - EPROTO"
    "fst (?e (calls example_panel) (GenericRead [0x0a, 0x00] 1)) = - EPROTO"
    "fst (bus_data [] (calls example_panel) (DcsRead 0x0a 1)) \<noteq> - EPROTO"
    by (simp_all add: bus_read_eproto_def bus_data_def EPROTO_def)
  note a = dsi_read_retry [of False "[0x0a, 0x00]" 1 ?e example_panel "replicate 8 0" TYPE_MIPI ?st
      "[0x64, 0x0a, 0x00, 0x01, 0x29]" 1]
  note g = dsi_read_retry [of True "[0x0a, 0x00]" 1 ?e example_panel "replicate 8 0" TYPE_MIPI ?st
      "[0x64, 0x0a, 0x00, 0x01, 0x29]" 1, THEN conjunct1]
  note k = dsi_read_retry [of False "[0x0a, 0x00]" 1 "bus_data []" example_panel "replicate 8 0" TYPE_MIPI ?st
      "[0x64, 0x0a, 0x00, 0x01, 0x29]" 1, THEN conjunct1]
  have c1: "calls (snd (snd (dsi_read ?e False example_panel [0x0a, 0x00] (replicate 8 0) 1)))
       = [DcsRead 0x0a 1, DcsRead 0x0a 1]"
    "fst (dsi_read ?e False example_panel [0x0a, 0x00] (replicate 8 0) 1) = - EPROTO"
    using a [THEN conjunct1] h(1,2) by (simp_all add: Let_def example_panel_def)
  have c2: "fst (dsi_read ?e True example_panel [0x0a, 0x00] (replicate 8 0) 1) = 0"
    using g h(3) by (simp add: Let_def)
  have c3: "calls (snd (snd (dsi_read (bus_data []) False example_panel [0x0a, 0x00] (replicate 8 0) 1)))
       = [DcsRead 0x0a 1]"
    using k h(4) by (simp add: Let_def example_panel_def)
  have rdc: "rd [0x64, 0x0a, 0x00, 0x01, 0x29 :: u8] (cmd ?st) 2 = [0x0a, 0x00]"
    by (simp add: rd_def upt_rec)
  have c4: "\<exists>st1. read_insn ?e TYPE_MIPI False [0x64, 0x0a, 0x00, 0x01, 0x29] ?st 1 = Return (- EPROTO) st1"
    using a [THEN conjunct2] c1(2) unfolding rdc
    by (simp add: TYPE_MIPI_def TYPE_I2C_def TYPE_SPI_def EPROTO_def)
  show ?thesis
    using h c1 c2 c3 c4 by blast
qed

text \<open>
  The claim as stated fails for generic reads: both attempts return \<^verbatim>\<open>-EPROTO\<close>, the
  stream goes on with the following write and ends with result 0.
\<close>

theorem dsi_read_retry_counterexample:
  "fst (send_cmd_list example_codes bus_read_eproto example_panel
          [0xe4, 0x0a, 0x00, 0x00, 0x01, 0x29] TYPE_MIPI (replicate 32 0)) = 0
   \<and> calls (panel (snd (send_cmd_list example_codes bus_read_eproto example_panel
          [0xe4, 0x0a, 0x00, 0x00, 0x01, 0x29] TYPE_MIPI (replicate 32 0))))
       = [GenericRead [0x0a, 0x00] 1, GenericRead [0x0a, 0x00] 1, DcsWriteBuffer [0x29]]"
  by code_simp

subsection \<open>Unknown codes\<close>

text \<open>
  Claim C10 (as amended).  A patch instruction whose selector is none of the nine names
  patches the value 0 and the stream goes on with the next instruction.  An opcode that is no
  instruction, when at least one more byte of the stream follows it, ends the stream at once
  with \<^verbatim>\<open>-EINVAL\<close>.  (The last byte of a stream is never classified.)
\<close>

theorem unknown_codes:
  "(decode oc (cs ! cmd st) = Patch scmd \<and> 4 < length_c st
      \<and> scmd \<notin> {S_CONST oc, S_HSYNC oc, S_HBP oc, S_HACTIVE oc, S_HFP oc, S_VSYNC oc, S_VBP oc,
                  S_VACTIVE oc, S_VFP oc}
    \<longrightarrow> send_loop oc b type cs st =
          send_loop oc b type cs
            (st\<lparr>cmd := cmd st + 4, length_c := length_c st - 4, skip := False,
                cmd_buf := patch_loop (cmd_buf st) (unat (cs ! (cmd st + 1))) (unat (cs ! (cmd st + 2))) 0\<rparr>))
   \<and> (decode oc (cs ! cmd st) = Unknown \<and> 1 < length_c st
    \<longrightarrow> send_loop oc b type cs st =
          (- EINVAL, st\<lparr>cmd := cmd st + 1, length_c := length_c st - 1, match_c := - EINVAL\<rparr>))"
proof (intro conjI impI)
  assume a: "decode oc (cs ! cmd st) = Patch scmd \<and> 4 < length_c st
      \<and> scmd \<notin> {S_CONST oc, S_HSYNC oc, S_HBP oc, S_HACTIVE oc, S_HFP oc, S_VSYNC oc, S_VBP oc,
                  S_VACTIVE oc, S_VFP oc}"
  then have pv: "\<And>k. patch_value oc (dt_mode (panel st)) scmd cs k = (0, 3)"
    by (simp add: patch_value_def)
  have "cmd_step oc b type cs st =
          Continue (st\<lparr>cmd := cmd st + 4, length_c := length_c st - 4, skip := False,
                cmd_buf := patch_loop (cmd_buf st) (unat (cs ! (cmd st + 1))) (unat (cs ! (cmd st + 2))) 0\<rparr>)"
    using a by (auto simp: cmd_step_def Let_def field_patch_def pv loop_tail_def)
  then show "send_loop oc b type cs st =
          send_loop oc b type cs
            (st\<lparr>cmd := cmd st + 4, length_c := length_c st - 4, skip := False,
                cmd_buf := patch_loop (cmd_buf st) (unat (cs ! (cmd st + 1))) (unat (cs ! (cmd st + 2))) 0\<rparr>)"
    by (rule send_loop_continue)
next
  assume a: "decode oc (cs ! cmd st) = Unknown \<and> 1 < length_c st"
  then have "cmd_step oc b type cs st =
      Break (st\<lparr>cmd := cmd st + 1, length_c := length_c st - 1, match_c := - EINVAL\<rparr>)"
    by (simp add: cmd_step_def Let_def)
  then show "send_loop oc b type cs st =
          (- EINVAL, st\<lparr>cmd := cmd st + 1, length_c := length_c st - 1, match_c := - EINVAL\<rparr>)"
    by (simp add: send_loop_break send_end_def EINVAL_def)
qed

theorem unknown_codes_witness:
  "decode example_codes ([0x74, 4, 12, 0, 0x01, 0x29] ! 0) = Patch 0x74
   \<and> send_loop example_codes (bus_data []) TYPE_MIPI [0x74, 4, 12, 0, 0x01, 0x29]
        \<lparr>cmd = 0, length_c = 6, skip = False, match_c = 0, cmd_buf = replicate 32 0xff,
         panel = example_panel\<rparr>
     = send_loop example_codes (bus_data []) TYPE_MIPI [0x74, 4, 12, 0, 0x01, 0x29]
        \<lparr>cmd = 4, length_c = 2, skip = False, match_c = 0,
         cmd_buf = patch_loop (replicate 32 0xff) 4 12 0, panel = example_panel\<rparr>
   \<and> decode example_codes ([0x7f, 0x01, 0x29] ! 0) = Unknown
   \<and> send_loop example_codes (bus_data []) TYPE_MIPI [0x7f, 0x01, 0x29]
        \<lparr>cmd = 0, length_c = 3, skip = False, match_c = 0, cmd_buf = replicate 32 0xff,
         panel = example_panel\<rparr>
     = (- EINVAL, \<lparr>cmd = 1, length_c = 2, skip = False, match_c = - EINVAL,
          cmd_buf = replicate 32 0xff, panel = example_panel\<rparr>)"
proof -
  let ?s1 = "\<lparr>cmd = 0, length_c = 6, skip = False, match_c = 0, cmd_buf = replicate 32 (0xff :: u8),
         panel = example_panel\<rparr>"
  let ?s2 = "\<lparr>cmd = 0, length_c = 3, skip = False, match_c = 0, cmd_buf = replicate 32 (0xff :: u8),
         panel = example_panel\<rparr>"
  have h1: "decode example_codes ([0x74, 4, 12, 0, 0x01, 0x29] ! cmd ?s1) = Patch 0x74 \<and> 4 < length_c ?s1
      \<and> 0x74 \<notin> {S_CONST example_codes, S_HSYNC example_codes, S_HBP example_codes,
            S_HACTIVE example_codes, S_HFP example_codes, S_VSYNC example_codes, S_VBP example_codes,
            S_VACTIVE example_codes, S_VFP example_codes}"
    by (simp add: decode_def example_codes_def)
  have h2: "decode example_codes ([0x7f, 0x01, 0x29] ! cmd ?s2) = Unknown \<and> 1 < length_c ?s2"
    by (simp add: decode_def example_codes_def)
  note u1 = unknown_codes [of example_codes "[0x74, 4, 12, 0, 0x01, 0x29]" ?s1 "0x74" "bus_data []" TYPE_MIPI,
      THEN conjunct1, rule_format, OF h1]
  note u2 = unknown_codes [of example_codes "[0x7f, 0x01, 0x29]" ?s2 "0x74" "bus_data []" TYPE_MIPI,
      THEN conjunct2, rule_format, OF h2]
  show ?thesis
    using h1 h2 u1 u2 by simp
qed

text \<open>
  The claim as stated fails when the unknown opcode is the last byte of the stream: the loop
  ends before classifying it and the result is 0.
\<close>

theorem unknown_codes_counterexample:
  "decode example_codes 0x7f = Unknown
   \<and> fst (send_cmd_list example_codes (bus_data []) example_panel [0x01, 0x29, 0x7f] TYPE_MIPI
          (replicate 32 0)) = 0"
  by code_simp

subsection \<open>The two-wire transport\<close>

lemma i2c_stage_take:
  "length tx \<le> length buf \<Longrightarrow>
   take (length tx) (i2c_stage buf tx) = (if 2 \<le> length tx then tx[0 := tx ! 1, 1 := tx ! 0] else tx)"
  by (cases tx; cases "tl tx") (auto simp: i2c_stage_def Let_def)

lemma simple_i2c_write_unfold:
  assumes "length tx \<le> 63"
  shows "simple_i2c_write b pn tx =
     (let msg = I2cMsg (i2c_address pn) False (length tx) (take (length tx) (i2c_stage (tx_buf pn) tx));
          pn1 = pn\<lparr>tx_buf := i2c_stage (tx_buf pn) tx\<rparr>;
          r1 = fst (b (calls pn) (I2cTransfer [msg]));
          r2 = fst (b (calls pn @ [I2cTransfer [msg], Msleep 10]) (I2cTransfer [msg]))
      in if r1 < 0
         then (if r2 < 0 then r2 else 0,
               pn1\<lparr>calls := calls pn @ [I2cTransfer [msg], Msleep 10, I2cTransfer [msg]]\<rparr>)
         else (0, pn1\<lparr>calls := calls pn @ [I2cTransfer [msg]]\<rparr>))"
  using assms by (simp add: simple_i2c_write_def bus_call_def Let_def case_prod_beta)

text \<open>
  Claim C8.  A two-wire write stages the payload with its first two bytes swapped (when there
  are two), transfers it, and after a failed transfer sleeps 10 ms and transfers once more,
  returning the second result; a two-wire read is one transfer of two messages, whatever it
  returns.  The stream Write([1, 2]), Delay(5), Write([3]) on a bus whose first transfer fails
  gives three transfers, the 10 ms sleep of the retry and one 5 ms sleep, and result 0.
\<close>

theorem i2c_write_retry_read_once:
  "(length tx \<le> 63 \<and> length (tx_buf pn) = 63 \<longrightarrow>
      (let msg = I2cMsg (i2c_address pn) False (length tx)
                   (if 2 \<le> length tx then tx[0 := tx ! 1, 1 := tx ! 0] else tx);
           r1 = fst (b (calls pn) (I2cTransfer [msg]));
           r2 = fst (b (calls pn @ [I2cTransfer [msg], Msleep 10]) (I2cTransfer [msg]))
       in take (length tx) (tx_buf (snd (simple_i2c_write b pn tx))) = m_buf msg
        \<and> (0 \<le> r1 \<longrightarrow>
              fst (simple_i2c_write b pn tx) = 0
              \<and> calls (snd (simple_i2c_write b pn tx)) = calls pn @ [I2cTransfer [msg]])
        \<and> (r1 < 0 \<longrightarrow>
              fst (simple_i2c_write b pn tx) = (if r2 < 0 then r2 else 0)
              \<and> calls (snd (simple_i2c_write b pn tx))
                   = calls pn @ [I2cTransfer [msg], Msleep 10, I2cTransfer [msg]])))
   \<and> (length tx \<le> 63 \<and> n \<le> 63 \<and> length (tx_buf pn) = 63 \<longrightarrow>
        calls (snd (snd (simple_i2c_read b pn tx rx n)))
          = calls pn @ [I2cTransfer
               [I2cMsg (i2c_address pn) False (length tx)
                  (if 2 \<le> length tx then tx[0 := tx ! 1, 1 := tx ! 0] else tx),
                I2cMsg (i2c_address pn) True n []]])
   \<and> (decode oc 2 = Write 2 \<and> decode oc 1 = Write 1 \<and> decode oc d = Delay
        \<and> fst (b (calls pn) (I2cTransfer [I2cMsg (i2c_address pn) False 2 [2, 1]])) < 0
        \<and> 0 \<le> fst (b (calls pn @ [I2cTransfer [I2cMsg (i2c_address pn) False 2 [2, 1]], Msleep 10])
                    (I2cTransfer [I2cMsg (i2c_address pn) False 2 [2, 1]]))
        \<and> 0 \<le> fst (b (calls pn @ [I2cTransfer [I2cMsg (i2c_address pn) False 2 [2, 1]], Msleep 10,
                                  I2cTransfer [I2cMsg (i2c_address pn) False 2 [2, 1]], Msleep 5])
                    (I2cTransfer [I2cMsg (i2c_address pn) False 1 [3]]))
      \<longrightarrow> fst (send_cmd_list oc b pn [2, 1, 2, d, 5, 1, 3] TYPE_I2C cb) = 0
        \<and> calls (panel (snd (send_cmd_list oc b pn [2, 1, 2, d, 5, 1, 3] TYPE_I2C cb)))
            = calls pn @ [I2cTransfer [I2cMsg (i2c_address pn) False 2 [2, 1]], Msleep 10,
                          I2cTransfer [I2cMsg (i2c_address pn) False 2 [2, 1]], Msleep 5,
                          I2cTransfer [I2cMsg (i2c_address pn) False 1 [3]]])"
proof (intro conjI impI)
  assume a: "length tx \<le> 63 \<and> length (tx_buf pn) = 63"
  then have t: "take (length tx) (i2c_stage (tx_buf pn) tx)
      = (if 2 \<le> length tx then tx[0 := tx ! 1, 1 := tx ! 0] else tx)"
    by (intro i2c_stage_take) simp
  from a have l: "length tx \<le> 63" by simp
  show "let msg = I2cMsg (i2c_address pn) False (length tx)
                   (if 2 \<le> length tx then tx[0 := tx ! 1, 1 := tx ! 0] else tx);
           r1 = fst (b (calls pn) (I2cTransfer [msg]));
           r2 = fst (b (calls pn @ [I2cTransfer [msg], Msleep 10]) (I2cTransfer [msg]))
       in take (length tx) (tx_buf (snd (simple_i2c_write b pn tx))) = m_buf msg
        \<and> (0 \<le> r1 \<longrightarrow>
              fst (simple_i2c_write b pn tx) = 0
              \<and> calls (snd (simple_i2c_write b pn tx)) = calls pn @ [I2cTransfer [msg]])
        \<and> (r1 < 0 \<longrightarrow>
              fst (simple_i2c_write b pn tx) = (if r2 < 0 then r2 else 0)
              \<and> calls (snd (simple_i2c_write b pn tx))
                   = calls pn @ [I2cTransfer [msg], Msleep 10, I2cTransfer [msg]])"
    unfolding simple_i2c_write_unfold [OF l] t [symmetric]
    by (simp add: Let_def)
next
  assume a: "length tx \<le> 63 \<and> n \<le> 63 \<and> length (tx_buf pn) = 63"
  then have t: "take (length tx) (i2c_stage (tx_buf pn) tx)
      = (if 2 \<le> length tx then tx[0 := tx ! 1, 1 := tx ! 0] else tx)"
    by (intro i2c_stage_take) simp
  show "calls (snd (snd (simple_i2c_read b pn tx rx n)))
          = calls pn @ [I2cTransfer
               [I2cMsg (i2c_address pn) False (length tx)
                  (if 2 \<le> length tx then tx[0 := tx ! 1, 1 := tx ! 0] else tx),
                I2cMsg (i2c_address pn) True n []]]"
    using a unfolding t [symmetric]
    by (simp add: simple_i2c_read_def bus_call_def Let_def case_prod_beta)
next
  let ?m1 = "I2cMsg (i2c_address pn) False 2 [2, 1]"
  let ?m3 = "I2cMsg (i2c_address pn) False 1 [3]"
  assume a: "decode oc 2 = Write 2 \<and> decode oc 1 = Write 1 \<and> decode oc d = Delay
        \<and> fst (b (calls pn) (I2cTransfer [?m1])) < 0
        \<and> 0 \<le> fst (b (calls pn @ [I2cTransfer [?m1], Msleep 10]) (I2cTransfer [?m1]))
        \<and> 0 \<le> fst (b (calls pn @ [I2cTransfer [?m1], Msleep 10, I2cTransfer [?m1], Msleep 5])
                    (I2cTransfer [?m3]))"
  let ?cs = "[2, 1, 2, d, 5, 1, 3] :: u8 list"
  let ?T1 = "I2cTransfer [?m1]"
  let ?T3 = "I2cTransfer [?m3]"
  let ?p0 = "pn\<lparr>spi_bits := 0\<rparr>"
  let ?p1 = "pn\<lparr>spi_bits := 0, tx_buf := 2 # 1 # drop 2 (tx_buf pn),
                calls := calls pn @ [?T1, Msleep 10, ?T1]\<rparr>"
  let ?p2 = "pn\<lparr>spi_bits := 0, tx_buf := 2 # 1 # drop 2 (tx_buf pn),
                calls := calls pn @ [?T1, Msleep 10, ?T1, Msleep 5]\<rparr>"
  let ?p3 = "pn\<lparr>spi_bits := 0, tx_buf := 3 # 1 # drop 2 (tx_buf pn),
                calls := calls pn @ [?T1, Msleep 10, ?T1, Msleep 5, ?T3]\<rparr>"
  let ?s0 = "\<lparr>cmd = 0, length_c = 7, skip = False, match_c = 0, cmd_buf = cb, panel = ?p0\<rparr>"
  let ?s1 = "\<lparr>cmd = 3, length_c = 4, skip = False, match_c = 0, cmd_buf = cb, panel = ?p1\<rparr>"
  let ?s2 = "\<lparr>cmd = 5, length_c = 2, skip = False, match_c = 0, cmd_buf = cb, panel = ?p2\<rparr>"
  let ?s3 = "\<lparr>cmd = 7, length_c = 0, skip = False, match_c = 0, cmd_buf = cb, panel = ?p3\<rparr>"
  from a have dec: "decode oc 2 = Write 2" "decode oc 1 = Write 1" "decode oc d = Delay"
    and r1: "fst (b (calls pn) ?T1) < 0"
    and r2: "\<not> fst (b (calls pn @ [?T1, Msleep 10]) ?T1) < 0"
    and r3: "\<not> fst (b (calls pn @ [?T1, Msleep 10, ?T1, Msleep 5]) ?T3) < 0"
    by simp_all
  have w1: "simple_i2c_write b ?p0 [1, 2] = (0, ?p1)"
    using r1 r2 by (simp add: simple_i2c_write_unfold i2c_stage_def Let_def numeral_2_eq_2 [symmetric])
  have w3: "simple_i2c_write b ?p2 [3] = (0, ?p3)"
    using r3 by (simp add: simple_i2c_write_unfold i2c_stage_def Let_def)
  have rd1: "rd ?cs (Suc 0) 2 = [1, 2]" and rd3: "rd ?cs 6 (Suc 0) = [3]" "rd ?cs 6 1 = [3]"
    by (simp_all add: rd_def upt_rec)
  have st1: "cmd_step oc b TYPE_I2C ?cs ?s0 = Continue ?s1"
    by (simp add: cmd_step_def Let_def dec write_insn_def write_dispatch_def rd1 w1 loop_tail_def)
  have st2: "cmd_step oc b TYPE_I2C ?cs ?s1 = Continue ?s2"
    by (simp add: cmd_step_def Let_def dec delay_insn_def bus_call_def loop_tail_def
          TYPE_I2C_def TYPE_SPI_def)
  have st3: "cmd_step oc b TYPE_I2C ?cs ?s2 = Break ?s3"
    by (simp add: cmd_step_def Let_def dec write_insn_def write_dispatch_def rd3 w3 loop_tail_def)
  have e: "send_end b TYPE_I2C ?s3 = (0, ?s3)"
    by (simp add: send_end_def TYPE_I2C_def TYPE_SPI_def)
  have len: "length ?cs = 7"
    by simp
  have "send_cmd_list oc b pn ?cs TYPE_I2C cb = send_loop oc b TYPE_I2C ?cs ?s0"
    by (simp only: send_cmd_list_def len) simp
  also have "\<dots> = (0, ?s3)"
    by (simp only: send_loop_continue [OF st1] send_loop_continue [OF st2] send_loop_break [OF st3] e)
  finally have run: "send_cmd_list oc b pn ?cs TYPE_I2C cb = (0, ?s3)" .
  show "fst (send_cmd_list oc b pn [2, 1, 2, d, 5, 1, 3] TYPE_I2C cb) = 0"
    "calls (panel (snd (send_cmd_list oc b pn [2, 1, 2, d, 5, 1, 3] TYPE_I2C cb)))
            = calls pn @ [I2cTransfer [?m1], Msleep 10, I2cTransfer [?m1], Msleep 5, I2cTransfer [?m3]]"
    unfolding run by simp_all
qed

theorem i2c_write_retry_read_once_witness:
  "fst (bus_fail_first (calls example_panel) (I2cTransfer [I2cMsg 0x2c False 2 [2, 1]])) < 0
   \<and> fst (simple_i2c_write bus_fail_first example_panel [1, 2]) = 0
   \<and> calls (snd (simple_i2c_write bus_fail_first example_panel [1, 2]))
       = [I2cTransfer [I2cMsg 0x2c False 2 [2, 1]], Msleep 10, I2cTransfer [I2cMsg 0x2c False 2 [2, 1]]]
   \<and> 0 \<le> fst (bus_data [] (calls example_panel) (I2cTransfer [I2cMsg 0x2c False 2 [2, 1]]))
   \<and> calls (snd (simple_i2c_write (bus_data []) example_panel [1, 2]))
       = [I2cTransfer [I2cMsg 0x2c False 2 [2, 1]]]
   \<and> calls (snd (snd (simple_i2c_read bus_fail_first example_panel [0x0a] (replicate 8 0) 1)))
       = [I2cTransfer [I2cMsg 0x2c False 1 [0x0a], I2cMsg 0x2c True 1 []]]
   \<and> decode example_codes 2 = Write 2 \<and> decode example_codes 1 = Write 1
   \<and> decode example_codes 0x60 = Delay
   \<and> fst (send_cmd_list example_codes bus_fail_first example_panel [2, 1, 2, 0x60, 5, 1, 3] TYPE_I2C
          (replicate 32 0)) = 0
   \<and> calls (panel (snd (send_cmd_list example_codes bus_fail_first example_panel
          [2, 1, 2, 0x60, 5, 1, 3] TYPE_I2C (replicate 32 0))))
       = [I2cTransfer [I2cMsg 0x2c False 2 [2, 1]], Msleep 10,
          I2cTransfer [I2cMsg 0x2c False 2 [2, 1]], Msleep 5,
          I2cTransfer [I2cMsg 0x2c False 1 [3]]]"
proof -
  let ?f = bus_fail_first
  let ?T1 = "I2cTransfer [I2cMsg 0x2c False 2 [2, 1]]"
  have pn: "i2c_address example_panel = 0x2c" "calls example_panel = []"
    "length (tx_buf example_panel) = 63"
    by (simp_all add: example_panel_def)
  have h1: "fst (?f (calls example_panel) ?T1) < 0"
    "\<not> fst (?f (calls example_panel @ [?T1, Msleep 10]) ?T1) < 0"
    "0 \<le> fst (bus_data [] (calls example_panel) ?T1)"
    by (simp_all add: bus_fail_first_def bus_data_def pn)
  have dec: "decode example_codes 2 = Write 2" "decode example_codes 1 = Write 1"
    "decode example_codes 0x60 = Delay"
    by (simp_all add: decode_def example_codes_def)
  note w = i2c_write_retry_read_once [of "[1, 2]" example_panel ?f 1 "replicate 8 0" example_codes
      "0x60" "replicate 32 0", THEN conjunct1]
  note v = i2c_write_retry_read_once [of "[1, 2]" example_panel "bus_data []" 1 "replicate 8 0"
      example_codes "0x60" "replicate 32 0", THEN conjunct1]
  note r = i2c_write_retry_read_once [of "[0x0a]" example_panel ?f 1 "replicate 8 0" example_codes
      "0x60" "replicate 32 0", THEN conjunct2, THEN conjunct1]
  note s = i2c_write_retry_read_once [of "[1, 2]" example_panel ?f 1 "replicate 8 0" example_codes
      "0x60" "replicate 32 0", THEN conjunct2, THEN conjunct2]
  have c1: "fst (simple_i2c_write ?f example_panel [1, 2]) = 0"
    "calls (snd (simple_i2c_write ?f example_panel [1, 2])) = [?T1, Msleep 10, ?T1]"
    using w by (simp_all add: Let_def pn bus_fail_first_def numeral_2_eq_2 [symmetric])
  have c2: "calls (snd (simple_i2c_write (bus_data []) example_panel [1, 2])) = [?T1]"
    using v by (simp add: Let_def pn bus_data_def numeral_2_eq_2 [symmetric])
  have c3: "calls (snd (snd (simple_i2c_read ?f example_panel [0x0a] (replicate 8 0) 1)))
       = [I2cTransfer [I2cMsg 0x2c False 1 [0x0a], I2cMsg 0x2c True 1 []]]"
    using r by (simp add: pn)
  have c4: "fst (send_cmd_list example_codes ?f example_panel [2, 1, 2, 0x60, 5, 1, 3] TYPE_I2C
          (replicate 32 0)) = 0"
    "calls (panel (snd (send_cmd_list example_codes ?f example_panel
          [2, 1, 2, 0x60, 5, 1, 3] TYPE_I2C (replicate 32 0))))
       = [?T1, Msleep 10, ?T1, Msleep 5, I2cTransfer [I2cMsg 0x2c False 1 [3]]]"
    using s dec by (simp_all add: pn bus_fail_first_def)
  show ?thesis
    using h1 dec c1 c2 c3 c4 by blast
qed

subsection \<open>Reads and verification\<close>


















end
